theory Spec2Isabelle
  imports Complex_Main "HOL-Library.Sublist"
begin

section \<open>C library functions used by the firmware\<close>

text \<open>
  The firmware handles text as C strings. A C string is modelled as a \<^typ>\<open>string\<close>
  (a list of 8-bit characters) holding the bytes before the terminating NUL; a pointer
  into a string, as \<^verbatim>\<open>strstr\<close> returns it, is modelled as the suffix it points to, and
  the null pointer as \<^term>\<open>None\<close>.
\<close>

definition c_str :: "string \<Rightarrow> string" where
  "c_str buf = takeWhile (\<lambda>c. c \<noteq> CHR 0x00) buf"

fun strstr :: "string \<Rightarrow> string \<Rightarrow> string option" where
  "strstr [] needle = (if needle = [] then Some [] else None)"
| "strstr (c # cs) needle =
     (if prefix needle (c # cs) then Some (c # cs) else strstr cs needle)"

definition isspace :: "char \<Rightarrow> bool" where
  "isspace c \<longleftrightarrow> c \<in> set [CHR '' '', CHR 0x09, CHR 0x0A, CHR 0x0B, CHR 0x0C, CHR 0x0D]"

definition isdigit :: "char \<Rightarrow> bool" where
  "isdigit c \<longleftrightarrow> c \<in> set ''0123456789''"

definition digit_value :: "char \<Rightarrow> nat" where
  "digit_value c = of_char c - 48"

definition decimal_value :: "string \<Rightarrow> nat" where
  "decimal_value ds = foldl (\<lambda>acc d. 10 * acc + digit_value d) 0 ds"

definition scan_sign :: "string \<Rightarrow> bool \<times> string" where
  "scan_sign s =
     (case s of
        [] \<Rightarrow> (False, [])
      | c # r \<Rightarrow> if c = CHR ''-'' then (True, r)
                 else if c = CHR ''+'' then (False, r)
                 else (False, s))"

text \<open>
  The conversion \<^verbatim>\<open>%d\<close>: white space is skipped, then an optional sign and a non-empty
  run of decimal digits is read. The result is the value read and the rest of the input;
  \<^term>\<open>None\<close> is a matching failure. The value is a mathematical integer: C leaves the
  conversion undefined when the value does not fit the \<^verbatim>\<open>int\<close> it is stored in.
\<close>

definition conv_d :: "string \<Rightarrow> (int \<times> string) option" where
  "conv_d s =
     (let (neg, u) = scan_sign (dropWhile isspace s);
          ds = takeWhile isdigit u
      in if ds = [] then None
         else Some (if neg then - int (decimal_value ds) else int (decimal_value ds),
                    dropWhile isdigit u))"

text \<open>
  The directives of the format strings the firmware uses: an ordinary character, white
  space, \<^verbatim>\<open>%d\<close>, \<^verbatim>\<open>%f\<close>, and the suppressed scanset \<^verbatim>\<open>%*[^c]\<close> that skips a
  \<^emph>\<open>non-empty\<close> run of characters other than \<open>c\<close>. \<^verbatim>\<open>%%\<close> matches a percent sign.
\<close>

datatype directive = Lit char | White | Conv_d | Conv_f | Skip_not char

fun directives :: "string \<Rightarrow> directive list" where
  "directives [] = []"
| "directives [c] = [if isspace c then White else Lit c]"
| "directives (c # d # fmt) =
     (if c = CHR ''%'' then
        (if d = CHR ''d'' then Conv_d # directives fmt
         else if d = CHR ''f'' then Conv_f # directives fmt
         else if d = CHR ''%'' then Lit (CHR ''%'') # directives fmt
         else if d = CHR ''*'' then
           (case fmt of
              a # b # x # e # rest \<Rightarrow>
                if a = CHR ''['' \<and> b = CHR ''^'' \<and> e = CHR '']''
                then Skip_not x # directives rest else []
            | _ \<Rightarrow> [])
         else [])
      else if isspace c then White # directives (d # fmt)
      else Lit c # directives (d # fmt))"

datatype 'f arg = Int_arg int | Float_arg 'f

text \<open>
  \<^verbatim>\<open>sscanf\<close> runs the directives over the input and stops at the first one that fails.
  The model returns the values stored through the argument pointers, in order; the C
  return value is the length of that list (or \<^verbatim>\<open>EOF\<close>, which like \<open>0\<close> differs from every
  count the firmware compares with). The conversion \<^verbatim>\<open>%f\<close> is the parameter \<open>strtof\<close>:
  applied to the input after the white space, it gives the \<^verbatim>\<open>float\<close> read and the rest of
  the input, or \<^term>\<open>None\<close> when no number starts there. The type \<open>'f\<close> stands for
  \<^verbatim>\<open>float\<close>; nothing below depends on how floats are read or rounded.
\<close>

fun run_directives ::
  "(string \<Rightarrow> ('f \<times> string) option) \<Rightarrow> string \<Rightarrow> directive list \<Rightarrow> 'f arg list" where
  "run_directives strtof s [] = []"
| "run_directives strtof s (Lit c # ds) =
     (case s of [] \<Rightarrow> []
      | d # r \<Rightarrow> if d = c then run_directives strtof r ds else [])"
| "run_directives strtof s (White # ds) = run_directives strtof (dropWhile isspace s) ds"
| "run_directives strtof s (Conv_d # ds) =
     (case conv_d s of None \<Rightarrow> []
      | Some (v, r) \<Rightarrow> Int_arg v # run_directives strtof r ds)"
| "run_directives strtof s (Conv_f # ds) =
     (case strtof (dropWhile isspace s) of None \<Rightarrow> []
      | Some (v, r) \<Rightarrow> Float_arg v # run_directives strtof r ds)"
| "run_directives strtof s (Skip_not c # ds) =
     (if takeWhile (\<lambda>d. d \<noteq> c) s = [] then []
      else run_directives strtof (dropWhile (\<lambda>d. d \<noteq> c) s) ds)"

definition sscanf ::
  "(string \<Rightarrow> ('f \<times> string) option) \<Rightarrow> string \<Rightarrow> string \<Rightarrow> 'f arg list" where
  "sscanf strtof s fmt = run_directives strtof s (directives fmt)"

text \<open>The tests \<^verbatim>\<open>sscanf(...) == n\<close> together with the values stored.\<close>

fun one_int :: "'f arg list \<Rightarrow> int option" where
  "one_int [Int_arg a] = Some a"
| "one_int _ = None"

fun two_ints :: "'f arg list \<Rightarrow> (int \<times> int) option" where
  "two_ints [Int_arg a, Int_arg b] = Some (a, b)"
| "two_ints _ = None"

fun one_float :: "'f arg list \<Rightarrow> 'f option" where
  "one_float [Float_arg a] = Some a"
| "one_float _ = None"

fun two_floats :: "'f arg list \<Rightarrow> ('f \<times> 'f) option" where
  "two_floats [Float_arg a, Float_arg b] = Some (a, b)"
| "two_floats _ = None"

fun four_floats :: "'f arg list \<Rightarrow> ('f \<times> 'f \<times> 'f \<times> 'f) option" where
  "four_floats [Float_arg a, Float_arg b, Float_arg c, Float_arg d] = Some (a, b, c, d)"
| "four_floats _ = None"

text \<open>
  A reader of plain decimal numbers (sign, digits, optional fraction), with exact
  rational values. It instantiates \<open>strtof\<close> where a concrete line is evaluated.
\<close>

definition scan_decimal :: "string \<Rightarrow> (rat \<times> string) option" where
  "scan_decimal s =
     (let (neg, u) = scan_sign s;
          ip = takeWhile isdigit u;
          r = dropWhile isdigit u;
          (fp, r') = (case r of
                        [] \<Rightarrow> ([], r)
                      | c # t \<Rightarrow> if c = CHR ''.'' then (takeWhile isdigit t, dropWhile isdigit t)
                                 else ([], r));
          v = of_nat (decimal_value (ip @ fp)) / 10 ^ length fp
      in if ip @ fp = [] then None
         else Some (if neg then - v else v, r'))"

section \<open>Configuration, messages and printer state\<close>

definition WS_MAX_CLIENTS :: nat where "WS_MAX_CLIENTS = 4"
definition WS_MESSAGE_QUEUE_SIZE :: nat where "WS_MESSAGE_QUEUE_SIZE = 50"
definition WS_MAX_PAYLOAD_SIZE :: nat where "WS_MAX_PAYLOAD_SIZE = 512"
definition SERIAL_LINE_BUFFER_SIZE :: nat where "SERIAL_LINE_BUFFER_SIZE = 512"

record 'f temp_state =
  nozzle_current :: 'f
  nozzle_target :: 'f
  bed_current :: 'f
  bed_target :: 'f
  heatbreak_current :: 'f
  heatbreak_target :: 'f
  chamber_current :: 'f

record progress_state =
  percent :: int
  time_left_mins :: int
  change_mins :: int

text \<open>The fields \<^verbatim>\<open>x\<close>, \<^verbatim>\<open>y\<close>, \<^verbatim>\<open>z\<close>, \<^verbatim>\<open>e\<close> of \<^verbatim>\<open>position_state_t\<close>.\<close>

record 'f position_state =
  pos_x :: 'f
  pos_y :: 'f
  pos_z :: 'f
  pos_e :: 'f

record power_state =
  nozzle_pwm :: int
  bed_pwm :: int
  heatbreak_pwm :: int

text \<open>The globals guarded by \<^verbatim>\<open>printer_state_mutex\<close>.\<close>

record 'f printer_state =
  current_temps :: "'f temp_state"
  current_progress :: progress_state
  current_position :: "'f position_state"
  current_power :: power_state
  printer_connected :: bool

text \<open>
  A \<^verbatim>\<open>ws_message_t\<close> is a type tag and a JSON payload. The builders
  \<^verbatim>\<open>build_temperature_message\<close>, \<^verbatim>\<open>build_progress_message\<close>,
  \<^verbatim>\<open>build_position_message\<close>, \<^verbatim>\<open>build_power_message\<close> and
  \<^verbatim>\<open>build_status_message\<close> print the fields of the structure they are given into a
  fixed frame; such a message is modelled by its tag and the structure printed. A log
  message carries its payload text. (\<^verbatim>\<open>MSG_TYPE_ERROR\<close> is never built.)
\<close>

datatype 'f ws_message =
    Temperature "'f temp_state"
  | Progress progress_state
  | Position "'f position_state"
  | Log string
  | Status bool
  | Power power_state

text \<open>
  \<^verbatim>\<open>build_log_message\<close>: the loop copies the line into \<^verbatim>\<open>escaped[256]\<close>, writing a
  backslash before each double quote and backslash, while fewer than
  \<^verbatim>\<open>sizeof(escaped) - 2\<close> bytes are written; \<open>j\<close> is the number of bytes written so far.
  \<^verbatim>\<open>snprintf\<close> then frames the text, keeping at most \<^verbatim>\<open>WS_MAX_PAYLOAD_SIZE - 1\<close> bytes.
\<close>

fun escape_loop :: "nat \<Rightarrow> string \<Rightarrow> string" where
  "escape_loop j [] = []"
| "escape_loop j (c # cs) =
     (if j < WS_MAX_PAYLOAD_SIZE div 2 - 2 then
        (if c = CHR 0x22 \<or> c = CHR 0x5C then CHR 0x5C # c # escape_loop (j + 2) cs
         else c # escape_loop (j + 1) cs)
      else [])"

definition log_frame_open :: string where
  "log_frame_open = [CHR ''{'', CHR 0x22] @ ''type'' @ [CHR 0x22, CHR '':'', CHR 0x22] @ ''log''
     @ [CHR 0x22, CHR '','', CHR 0x22] @ ''message'' @ [CHR 0x22, CHR '':'', CHR 0x22]"

definition log_frame_close :: string where
  "log_frame_close = [CHR 0x22, CHR ''}'']"

definition build_log_message :: "string \<Rightarrow> 'f ws_message" where
  "build_log_message log_line =
     Log (take (WS_MAX_PAYLOAD_SIZE - 1)
            (log_frame_open @ escape_loop 0 log_line @ log_frame_close))"

section \<open>The serial line parser\<close>

text \<open>
  \<^verbatim>\<open>parse_and_broadcast_line\<close> is a sequence of independent \<^verbatim>\<open>if\<close> blocks, one per
  pattern. Each block is modelled by a function from the printer state to the new state
  and the messages the block hands to \<^verbatim>\<open>ws_broadcast_message\<close>, in order.
\<close>

subsection \<open>Temperature and power (the block guarded by \<^verbatim>\<open>T:\<close> and \<^verbatim>\<open>B:\<close>)\<close>

text \<open>Nozzle and bed: both \<^verbatim>\<open>sscanf\<close> calls must return 2; the flag is \<^verbatim>\<open>state_changed\<close>.\<close>

definition parse_dual_zone ::
  "(string \<Rightarrow> ('f \<times> string) option) \<Rightarrow> string \<Rightarrow> string \<Rightarrow> 'f temp_state
     \<Rightarrow> 'f temp_state \<times> bool" where
  "parse_dual_zone strtof t_pos b_pos temps =
     (case two_floats (sscanf strtof t_pos ''T:%f/%f'') of
        None \<Rightarrow> (temps, False)
      | Some (nozzle_cur, nozzle_tgt) \<Rightarrow>
          (case two_floats (sscanf strtof b_pos ''B:%f/%f'') of
             None \<Rightarrow> (temps, False)
           | Some (bed_cur, bed_tgt) \<Rightarrow>
               (temps\<lparr>nozzle_current := nozzle_cur, nozzle_target := nozzle_tgt,
                       bed_current := bed_cur, bed_target := bed_tgt\<rparr>, True)))"

definition parse_heatbreak ::
  "(string \<Rightarrow> ('f \<times> string) option) \<Rightarrow> string \<Rightarrow> 'f temp_state \<Rightarrow> 'f temp_state" where
  "parse_heatbreak strtof line temps =
     (case strstr line ''X:'' of
        None \<Rightarrow> temps
      | Some x_pos \<Rightarrow>
          (case two_floats (sscanf strtof x_pos ''X:%f/%f'') of
             None \<Rightarrow> temps
           | Some (hb_cur, hb_tgt) \<Rightarrow>
               temps\<lparr>heatbreak_current := hb_cur, heatbreak_target := hb_tgt\<rparr>))"

definition parse_chamber ::
  "(string \<Rightarrow> ('f \<times> string) option) \<Rightarrow> string \<Rightarrow> 'f temp_state \<Rightarrow> 'f temp_state" where
  "parse_chamber strtof line temps =
     (case strstr line ''C@:'' of
        None \<Rightarrow> temps
      | Some c_pos \<Rightarrow>
          (case one_float (sscanf strtof c_pos ''C@:%f'') of
             None \<Rightarrow> temps
           | Some chamber \<Rightarrow> temps\<lparr>chamber_current := chamber\<rparr>))"

text \<open>
  One heater duty value: \<^verbatim>\<open>sscanf\<close> stores straight into the field of
  \<^verbatim>\<open>current_power\<close>; the boolean says whether \<^verbatim>\<open>power_changed\<close> is set.
\<close>

definition parse_pwm ::
  "(string \<Rightarrow> ('f \<times> string) option) \<Rightarrow> string \<Rightarrow> string \<Rightarrow> string \<Rightarrow> int option" where
  "parse_pwm strtof line marker fmt =
     (case strstr line marker of
        None \<Rightarrow> None
      | Some pwr \<Rightarrow> one_int (sscanf strtof pwr fmt))"

definition parse_power ::
  "(string \<Rightarrow> ('f \<times> string) option) \<Rightarrow> string \<Rightarrow> power_state \<Rightarrow> power_state \<times> bool" where
  "parse_power strtof line p0 =
     (let (p1, c1) = (case parse_pwm strtof line ''@:'' ''@:%d'' of
                        None \<Rightarrow> (p0, False) | Some v \<Rightarrow> (p0\<lparr>nozzle_pwm := v\<rparr>, True));
          (p2, c2) = (case parse_pwm strtof line ''B@:'' ''B@:%d'' of
                        None \<Rightarrow> (p1, c1) | Some v \<Rightarrow> (p1\<lparr>bed_pwm := v\<rparr>, True));
          (p3, c3) = (case parse_pwm strtof line ''HBR@:'' ''HBR@:%d'' of
                        None \<Rightarrow> (p2, c2) | Some v \<Rightarrow> (p2\<lparr>heatbreak_pwm := v\<rparr>, True))
      in (p3, c3))"

definition parse_temperature ::
  "(string \<Rightarrow> ('f \<times> string) option) \<Rightarrow> string \<Rightarrow> 'f printer_state
     \<Rightarrow> 'f printer_state \<times> 'f ws_message list" where
  "parse_temperature strtof line s =
     (case strstr line ''T:'' of
        None \<Rightarrow> (s, [])
      | Some t_pos \<Rightarrow>
          (case strstr line ''B:'' of
             None \<Rightarrow> (s, [])
           | Some b_pos \<Rightarrow>
               (let (temps1, state_changed) = parse_dual_zone strtof t_pos b_pos (current_temps s);
                    temps2 = parse_heatbreak strtof line temps1;
                    temps3 = parse_chamber strtof line temps2;
                    (pwr, power_changed) = parse_power strtof line (current_power s)
                in (s\<lparr>current_temps := temps3, current_power := pwr\<rparr>,
                    (if state_changed then [Temperature temps3] else []) @
                    (if power_changed then [Power pwr] else [])))))"

subsection \<open>Progress, remaining time and change time\<close>

definition parse_progress ::
  "(string \<Rightarrow> ('f \<times> string) option) \<Rightarrow> string \<Rightarrow> 'f printer_state
     \<Rightarrow> 'f printer_state \<times> 'f ws_message list" where
  "parse_progress strtof line s =
     (if strstr line ''Progress:'' \<noteq> None then
        (case one_int (sscanf strtof line ''%*[^P]Progress: %d%%'') of
           None \<Rightarrow> (s, [])
         | Some pc \<Rightarrow>
             (let progress = (current_progress s)\<lparr>percent := pc\<rparr>
              in (s\<lparr>current_progress := progress\<rparr>, [Progress progress])))
      else (s, []))"

text \<open>
  The minutes read at a time marker: the format with hours and minutes is tried first
  (both values must be stored), then the format with minutes only; \<^term>\<open>None\<close> when
  neither call stores what it needs. The sum is a mathematical integer, as the values
  read are.
\<close>

definition scan_minutes ::
  "(string \<Rightarrow> ('f \<times> string) option) \<Rightarrow> string \<Rightarrow> string \<Rightarrow> string \<Rightarrow> int option" where
  "scan_minutes strtof time_str fmt_hm fmt_m =
     (case two_ints (sscanf strtof time_str fmt_hm) of
        Some (hours, mins) \<Rightarrow> Some (hours * 60 + mins)
      | None \<Rightarrow> one_int (sscanf strtof time_str fmt_m))"

text \<open>
  In both time blocks the message is built and broadcast after the \<^verbatim>\<open>if\<close>/\<^verbatim>\<open>else if\<close>,
  whether or not a value was stored.
\<close>

definition parse_time_left ::
  "(string \<Rightarrow> ('f \<times> string) option) \<Rightarrow> string \<Rightarrow> 'f printer_state
     \<Rightarrow> 'f printer_state \<times> 'f ws_message list" where
  "parse_time_left strtof line s =
     (case strstr line ''Time left:'' of
        None \<Rightarrow> (s, [])
      | Some time_str \<Rightarrow>
          (let progress =
                 (case scan_minutes strtof time_str ''Time left: %dh %dm'' ''Time left: %dm'' of
                    Some m \<Rightarrow> (current_progress s)\<lparr>time_left_mins := m\<rparr>
                  | None \<Rightarrow> current_progress s)
           in (s\<lparr>current_progress := progress\<rparr>, [Progress progress])))"

definition parse_change ::
  "(string \<Rightarrow> ('f \<times> string) option) \<Rightarrow> string \<Rightarrow> 'f printer_state
     \<Rightarrow> 'f printer_state \<times> 'f ws_message list" where
  "parse_change strtof line s =
     (case strstr line ''Change:'' of
        None \<Rightarrow> (s, [])
      | Some change_str \<Rightarrow>
          (let progress =
                 (case scan_minutes strtof change_str ''Change: %dh %dm'' ''Change: %dm'' of
                    Some m \<Rightarrow> (current_progress s)\<lparr>change_mins := m\<rparr>
                  | None \<Rightarrow> current_progress s)
           in (s\<lparr>current_progress := progress\<rparr>, [Progress progress])))"

subsection \<open>Position and print completion\<close>

text \<open>
  The line is copied into \<^verbatim>\<open>temp_line\<close> (\<^verbatim>\<open>strncpy\<close> with room for the terminator) and
  cut at the first \<^verbatim>\<open>Count\<close>; a pointer into \<^verbatim>\<open>temp_line\<close> is the suffix from there.
\<close>

definition cut_at_count :: "string \<Rightarrow> string" where
  "cut_at_count line =
     (let temp_line = take (SERIAL_LINE_BUFFER_SIZE - 1) line
      in case strstr temp_line ''Count'' of
           None \<Rightarrow> temp_line
         | Some count_pos \<Rightarrow> take (length temp_line - length count_pos) temp_line)"

definition parse_position ::
  "(string \<Rightarrow> ('f \<times> string) option) \<Rightarrow> string \<Rightarrow> 'f printer_state
     \<Rightarrow> 'f printer_state \<times> 'f ws_message list" where
  "parse_position strtof line s =
     (if strstr line ''X:'' \<noteq> None \<and> strstr line ''Y:'' \<noteq> None \<and>
         strstr line ''Z:'' \<noteq> None \<and> strstr line ''E:'' \<noteq> None then
        (case four_floats (sscanf strtof (cut_at_count line) ''%*[^X]X:%f Y:%f Z:%f E:%f'') of
           None \<Rightarrow> (s, [])
         | Some (x, y, z, e) \<Rightarrow>
             (let pos = \<lparr>pos_x = x, pos_y = y, pos_z = z, pos_e = e\<rparr>
              in (s\<lparr>current_position := pos\<rparr>, [Position pos])))
      else (s, []))"

definition parse_done ::
  "string \<Rightarrow> 'f printer_state \<Rightarrow> 'f printer_state \<times> 'f ws_message list" where
  "parse_done line s =
     (if strstr line ''Done printing file'' \<noteq> None then
        (let progress = (current_progress s)\<lparr>percent := 100, time_left_mins := 0\<rparr>
         in (s\<lparr>current_progress := progress\<rparr>, [Progress progress]))
      else (s, []))"

subsection \<open>The whole function, with its locking\<close>

text \<open>The blocks between taking and giving \<^verbatim>\<open>printer_state_mutex\<close>, in source order.\<close>

definition parse_patterns ::
  "(string \<Rightarrow> ('f \<times> string) option) \<Rightarrow> string \<Rightarrow> 'f printer_state
     \<Rightarrow> 'f printer_state \<times> 'f ws_message list" where
  "parse_patterns strtof line s0 =
     (let (s1, m1) = parse_temperature strtof line s0;
          (s2, m2) = parse_progress strtof line s1;
          (s3, m3) = parse_time_left strtof line s2;
          (s4, m4) = parse_change strtof line s3;
          (s5, m5) = parse_position strtof line s4;
          (s6, m6) = parse_done line s5
      in (s6, m1 @ m2 @ m3 @ m4 @ m5 @ m6))"

text \<open>
  What a task does to the outside is a list of actions: taking and giving a mutex, and
  \<open>Send msg\<close>, the loop of \<^verbatim>\<open>ws_broadcast_message\<close> that offers \<open>msg\<close> to the queue of
  every active client. Calls of the logging macros are not actions; the warning that
  the loop logs for a full queue is treated with the log hook further down.
\<close>

datatype mutex = ws_clients_mutex | printer_state_mutex

datatype 'f action = Take mutex | Give mutex | Send "'f ws_message"

definition ws_broadcast_message :: "'f ws_message \<Rightarrow> 'f action list" where
  "ws_broadcast_message msg = [Take ws_clients_mutex, Send msg, Give ws_clients_mutex]"

definition parse_and_broadcast_line ::
  "(string \<Rightarrow> ('f \<times> string) option) \<Rightarrow> string \<Rightarrow> 'f printer_state
     \<Rightarrow> 'f printer_state \<times> 'f action list" where
  "parse_and_broadcast_line strtof line s =
     (let (s', msgs) = parse_patterns strtof line s
      in (s', ws_broadcast_message (build_log_message line)
              @ [Take printer_state_mutex]
              @ concat (map ws_broadcast_message msgs)
              @ [Give printer_state_mutex]))"

text \<open>The messages broadcast by a list of actions, in order.\<close>

fun events :: "'f action list \<Rightarrow> 'f ws_message list" where
  "events [] = []"
| "events (Send msg # as) = msg # events as"
| "events (_ # as) = events as"

fun is_temperature :: "'f ws_message \<Rightarrow> bool" where
  "is_temperature (Temperature _) = True"
| "is_temperature _ = False"

fun is_log :: "'f ws_message \<Rightarrow> bool" where
  "is_log (Log _) = True"
| "is_log _ = False"

text \<open>The printer state at start-up: every global is initialised with zeros.\<close>

definition initial_state :: "'f::zero printer_state" where
  "initial_state =
     \<lparr>current_temps = \<lparr>nozzle_current = 0, nozzle_target = 0, bed_current = 0,
        bed_target = 0, heatbreak_current = 0, heatbreak_target = 0, chamber_current = 0\<rparr>,
      current_progress = \<lparr>percent = 0, time_left_mins = 0, change_mins = 0\<rparr>,
      current_position = \<lparr>pos_x = 0, pos_y = 0, pos_z = 0, pos_e = 0\<rparr>,
      current_power = \<lparr>nozzle_pwm = 0, bed_pwm = 0, heatbreak_pwm = 0\<rparr>,
      printer_connected = False\<rparr>"

text \<open>
  The text a log message would carry if nothing were cut: every double quote and
  backslash of the line preceded by a backslash.
\<close>

definition escape_all :: "string \<Rightarrow> string" where
  "escape_all line =
     concat (map (\<lambda>c. if c = CHR 0x22 \<or> c = CHR 0x5C then [CHR 0x5C, c] else [c]) line)"

section \<open>The line assembler\<close>

text \<open>
  \<^verbatim>\<open>handle_rx\<close> walks over the bytes received. \<open>buf\<close> is the content of
  \<^verbatim>\<open>serial_line_buffer\<close> below \<^verbatim>\<open>serial_line_pos\<close>, which is its length. On a flush a
  NUL is written behind the content and the buffer is passed to
  \<^verbatim>\<open>parse_and_broadcast_line\<close>, which reads it as a C string. The result is the list
  of the strings passed, in order, and the content left in the buffer.
\<close>

fun handle_rx :: "string \<Rightarrow> string \<Rightarrow> string list \<times> string" where
  "handle_rx buf [] = ([], buf)"
| "handle_rx buf (c # data) =
     (if c = CHR 0x0A \<or> c = CHR 0x0D then
        (if 0 < length buf then
           (let (lines, buf') = handle_rx [] data in (c_str buf # lines, buf'))
         else handle_rx buf data)
      else if length buf < SERIAL_LINE_BUFFER_SIZE - 1 then handle_rx (buf @ [c]) data
      else (let (lines, buf') = handle_rx [] data in (c_str buf # lines, buf')))"

fun parse_lines ::
  "(string \<Rightarrow> ('f \<times> string) option) \<Rightarrow> string list \<Rightarrow> 'f printer_state
     \<Rightarrow> 'f printer_state \<times> 'f action list" where
  "parse_lines strtof [] s = (s, [])"
| "parse_lines strtof (l # ls) s =
     (let (s1, a1) = parse_and_broadcast_line strtof l s;
          (s2, a2) = parse_lines strtof ls s1
      in (s2, a1 @ a2))"

section \<open>Client queues and the client table\<close>

text \<open>
  A FreeRTOS queue of fixed length. Every \<^verbatim>\<open>xQueueSend\<close> and \<^verbatim>\<open>xQueueReceive\<close> of the
  firmware passes 0 ticks to wait, so a call returns at once: \<^verbatim>\<open>xQueueSend\<close> appends the
  item and answers \<^term>\<open>True\<close> (\<^verbatim>\<open>pdTRUE\<close>) when there is room, and leaves the queue as
  it is and answers \<^term>\<open>False\<close> when it is full.
\<close>

record 'm queue =
  uxLength :: nat
  items :: "'m list"

definition xQueueCreate :: "nat \<Rightarrow> 'm queue" where
  "xQueueCreate n = \<lparr>uxLength = n, items = []\<rparr>"

definition xQueueSend :: "'m queue \<Rightarrow> 'm \<Rightarrow> 'm queue \<times> bool" where
  "xQueueSend q m =
     (if length (items q) < uxLength q then (q\<lparr>items := items q @ [m]\<rparr>, True)
      else (q, False))"

definition xQueueReceive :: "'m queue \<Rightarrow> 'm queue \<times> 'm option" where
  "xQueueReceive q =
     (case items q of [] \<Rightarrow> (q, None) | m # ms \<Rightarrow> (q\<lparr>items := ms\<rparr>, Some m))"

definition xQueueReset :: "'m queue \<Rightarrow> 'm queue" where
  "xQueueReset q = q\<lparr>items := []\<rparr>"

record 'f ws_client =
  fd :: int
  active :: bool
  message_queue :: "'f ws_message queue"

definition ws_clients_init :: "'f ws_client list" where
  "ws_clients_init =
     replicate WS_MAX_CLIENTS
       \<lparr>fd = - 1, active = False, message_queue = xQueueCreate WS_MESSAGE_QUEUE_SIZE\<rparr>"

text \<open>
  The slot loops of \<^verbatim>\<open>ws_client_add\<close> and \<^verbatim>\<open>ws_client_remove\<close>, from slot \<open>i\<close> on;
  the result of the first is the slot taken, or \<open>-1\<close>.
\<close>

fun ws_client_add :: "int \<Rightarrow> nat \<Rightarrow> 'f ws_client list \<Rightarrow> int \<times> 'f ws_client list" where
  "ws_client_add sock i [] = (- 1, [])"
| "ws_client_add sock i (c # cs) =
     (if \<not> active c then
        (int i, c\<lparr>fd := sock, active := True,
                  message_queue := xQueueReset (message_queue c)\<rparr> # cs)
      else (let (r, cs') = ws_client_add sock (i + 1) cs in (r, c # cs')))"

fun ws_client_remove :: "int \<Rightarrow> 'f ws_client list \<Rightarrow> 'f ws_client list" where
  "ws_client_remove sock [] = []"
| "ws_client_remove sock (c # cs) =
     (if active c \<and> fd c = sock then
        c\<lparr>active := False, fd := - 1, message_queue := xQueueReset (message_queue c)\<rparr> # cs
      else c # ws_client_remove sock cs)"

text \<open>
  The loop of \<^verbatim>\<open>ws_broadcast_message\<close>, when every call in it returns: the message is
  offered to the queue of every active client, and is not queued where the queue is
  full (the warning logged there is treated with the log hook further down).
\<close>

definition send_to_clients :: "'f ws_message \<Rightarrow> 'f ws_client list \<Rightarrow> 'f ws_client list" where
  "send_to_clients msg cs =
     map (\<lambda>c. if active c then c\<lparr>message_queue := fst (xQueueSend (message_queue c) msg)\<rparr>
               else c) cs"

text \<open>The effect on the client table of a list of actions that all return.\<close>

fun deliver :: "'f action list \<Rightarrow> 'f ws_client list \<Rightarrow> 'f ws_client list" where
  "deliver [] cs = cs"
| "deliver (Send msg # as) cs = deliver as (send_to_clients msg cs)"
| "deliver (_ # as) cs = deliver as cs"

text \<open>
  One pass of \<^verbatim>\<open>ws_sender_task\<close> over the table: each active client gives up the oldest
  message of its queue, which is sent as a frame to its socket.
\<close>

fun sender_pass :: "'f ws_client list \<Rightarrow> 'f ws_client list \<times> (int \<times> 'f ws_message) list" where
  "sender_pass [] = ([], [])"
| "sender_pass (c # cs) =
     (let (cs', frames) = sender_pass cs
      in if active c then
           (case xQueueReceive (message_queue c) of
              (q, Some msg) \<Rightarrow> (c\<lparr>message_queue := q\<rparr> # cs', (fd c, msg) # frames)
            | (q, None) \<Rightarrow> (c # cs', frames))
         else (c # cs', frames))"

text \<open>
  The handshake of \<^verbatim>\<open>ws_handler\<close> puts the current state into the queue of the new
  client, one message per dimension, with \<^verbatim>\<open>xQueueSend\<close> on that queue.
\<close>

definition snapshot :: "'f printer_state \<Rightarrow> 'f ws_message list" where
  "snapshot s =
     [Status (printer_connected s), Temperature (current_temps s),
      Progress (current_progress s), Position (current_position s),
      Power (current_power s)]"

definition seed_client :: "nat \<Rightarrow> 'f ws_message list \<Rightarrow> 'f ws_client list \<Rightarrow> 'f ws_client list" where
  "seed_client i msgs cs =
     (if i < length cs then
        cs[i := (cs ! i)\<lparr>message_queue :=
                   foldl (\<lambda>q m. fst (xQueueSend q m)) (message_queue (cs ! i)) msgs\<rparr>]
      else cs)"

section \<open>The entry points of the core\<close>

text \<open>
  The state of the core and the calls that reach it from outside: serial data
  (\<^verbatim>\<open>handle_rx\<close>), loss and arrival of the printer (\<^verbatim>\<open>handle_event\<close>, the loop of
  \<^verbatim>\<open>app_main\<close>), the \<^verbatim>\<open>CONNECT\<close> text frame and the close frame of a socket
  (\<^verbatim>\<open>ws_handler\<close>), and one pass of \<^verbatim>\<open>ws_sender_task\<close>. A step gives the actions
  in program order and the state after them, for a step all of whose calls return.
\<close>

record 'f world =
  serial_line_buffer :: string
  printer :: "'f printer_state"
  ws_clients :: "'f ws_client list"

datatype entry =
    Rx string
  | Device_disconnected
  | Device_connected
  | Ws_connect int
  | Ws_close int
  | Sender_pass

fun step ::
  "(string \<Rightarrow> ('f \<times> string) option) \<Rightarrow> entry \<Rightarrow> 'f world \<Rightarrow> 'f world \<times> 'f action list" where
  "step strtof (Rx data) w =
     (let (lines, buf') = handle_rx (serial_line_buffer w) data;
          (s', acts) = parse_lines strtof lines (printer w)
      in (\<lparr>serial_line_buffer = buf', printer = s',
           ws_clients = deliver acts (ws_clients w)\<rparr>, acts))"
| "step strtof Device_disconnected w =
     (let acts = [Take printer_state_mutex, Give printer_state_mutex]
                 @ ws_broadcast_message (Status False)
      in (w\<lparr>printer := (printer w)\<lparr>printer_connected := False\<rparr>,
            ws_clients := deliver acts (ws_clients w)\<rparr>, acts))"
| "step strtof Device_connected w =
     (let acts = [Take printer_state_mutex, Give printer_state_mutex]
                 @ ws_broadcast_message (Status True)
      in (w\<lparr>printer := (printer w)\<lparr>printer_connected := True\<rparr>,
            ws_clients := deliver acts (ws_clients w)\<rparr>, acts))"
| "step strtof (Ws_connect sock) w =
     (let (client_id, cs) = ws_client_add sock 0 (ws_clients w)
      in if 0 \<le> client_id then
           (w\<lparr>ws_clients := seed_client (nat client_id) (snapshot (printer w)) cs\<rparr>,
            [Take ws_clients_mutex, Give ws_clients_mutex,
             Take printer_state_mutex, Give printer_state_mutex])
         else (w\<lparr>ws_clients := cs\<rparr>, [Take ws_clients_mutex, Give ws_clients_mutex]))"
| "step strtof (Ws_close sock) w =
     (w\<lparr>ws_clients := ws_client_remove sock (ws_clients w)\<rparr>,
      [Take ws_clients_mutex, Give ws_clients_mutex])"
| "step strtof Sender_pass w =
     (w\<lparr>ws_clients := fst (sender_pass (ws_clients w))\<rparr>,
      [Take ws_clients_mutex, Give ws_clients_mutex])"

subsection \<open>Lock discipline of a list of actions\<close>




text \<open>
  The order state lock, then client lock: a mutex is taken only when the task does not
  hold it, \<^verbatim>\<open>printer_state_mutex\<close> is not taken while \<^verbatim>\<open>ws_clients_mutex\<close> is held, a
  broadcast runs under \<^verbatim>\<open>ws_clients_mutex\<close>, only a held mutex is given, and nothing is
  held at the end.
\<close>

fun lock_order :: "mutex list \<Rightarrow> 'f action list \<Rightarrow> bool" where
  "lock_order h [] = (h = [])"
| "lock_order h (Take m # as) =
     (m \<notin> set h \<and> \<not> (m = printer_state_mutex \<and> ws_clients_mutex \<in> set h)
      \<and> lock_order (m # h) as)"
| "lock_order h (Give m # as) = (m \<in> set h \<and> lock_order (remove1 m h) as)"
| "lock_order h (Send msg # as) = (ws_clients_mutex \<in> set h \<and> lock_order h as)"

section \<open>Full queues and the log hook\<close>

text \<open>
  The actions above are what the functions do themselves. Two things are added here:
  what a take does when the mutex is not free, and the warning that
  \<^verbatim>\<open>ws_broadcast_message\<close> logs for a full queue.

  Every take of the firmware waits with \<^verbatim>\<open>portMAX_DELAY\<close>, and both mutexes are plain
  (not recursive) ones. Only the calling task is modelled, with the list of mutexes it
  holds: a mutex it does not hold is taken, and a take of a mutex it holds itself never
  returns, since nobody else gives it.
\<close>

datatype 'a outcome = Returns 'a | Blocks

definition xSemaphoreTake :: "mutex \<Rightarrow> mutex list \<Rightarrow> mutex list outcome" where
  "xSemaphoreTake m held = (if m \<in> set held then Blocks else Returns (m # held))"

text \<open>
  \<^verbatim>\<open>ESP_LOGW\<close> prints through the function installed with \<^verbatim>\<open>esp_log_set_vprintf\<close>.
  \<^verbatim>\<open>app_main\<close> installs \<^verbatim>\<open>ws_log_vprintf\<close> before it opens the printer; \<open>hook\<close> says
  whether that has happened. \<^verbatim>\<open>ws_log_vprintf\<close> formats the text (the warning is
  shorter than its buffer of 256 bytes) and hands it to \<^verbatim>\<open>ws_broadcast_message\<close>,
  which starts by taking \<^verbatim>\<open>ws_clients_mutex\<close>. Where the model calls it the mutex is
  held, so only that first take is modelled.
\<close>

definition ws_log_vprintf :: "mutex list \<Rightarrow> unit outcome" where
  "ws_log_vprintf held =
     (case xSemaphoreTake ws_clients_mutex held of
        Blocks \<Rightarrow> Blocks
      | Returns h \<Rightarrow> Returns ())"

definition ESP_LOGW :: "bool \<Rightarrow> mutex list \<Rightarrow> unit outcome" where
  "ESP_LOGW hook held = (if hook then ws_log_vprintf held else Returns ())"

text \<open>
  The loop of \<^verbatim>\<open>ws_broadcast_message\<close> with its warning, run by a task holding \<open>held\<close>.
\<close>

fun broadcast_loop ::
  "bool \<Rightarrow> mutex list \<Rightarrow> 'f ws_message \<Rightarrow> 'f ws_client list \<Rightarrow> 'f ws_client list outcome" where
  "broadcast_loop hook held msg [] = Returns []"
| "broadcast_loop hook held msg (c # cs) =
     (if active c then
        (case xQueueSend (message_queue c) msg of
           (q, True) \<Rightarrow>
             (case broadcast_loop hook held msg cs of
                Blocks \<Rightarrow> Blocks
              | Returns cs' \<Rightarrow> Returns (c\<lparr>message_queue := q\<rparr> # cs'))
         | (q, False) \<Rightarrow>
             (case ESP_LOGW hook held of
                Blocks \<Rightarrow> Blocks
              | Returns u \<Rightarrow>
                  (case broadcast_loop hook held msg cs of
                     Blocks \<Rightarrow> Blocks
                   | Returns cs' \<Rightarrow> Returns (c # cs'))))
      else
        (case broadcast_loop hook held msg cs of
           Blocks \<Rightarrow> Blocks
         | Returns cs' \<Rightarrow> Returns (c # cs')))"

text \<open>Running a list of actions: the mutexes held and the client table at the end.\<close>

fun exec ::
  "bool \<Rightarrow> 'f action list \<Rightarrow> mutex list \<times> 'f ws_client list
     \<Rightarrow> (mutex list \<times> 'f ws_client list) outcome" where
  "exec hook [] st = Returns st"
| "exec hook (Take m # as) (held, cs) =
     (case xSemaphoreTake m held of
        Blocks \<Rightarrow> Blocks
      | Returns h \<Rightarrow> exec hook as (h, cs))"
| "exec hook (Give m # as) (held, cs) = exec hook as (remove1 m held, cs)"
| "exec hook (Send msg # as) (held, cs) =
     (case broadcast_loop hook held msg cs of
        Blocks \<Rightarrow> Blocks
      | Returns cs' \<Rightarrow> exec hook as (held, cs'))"

definition queue_full :: "'m queue \<Rightarrow> bool" where
  "queue_full q \<longleftrightarrow> \<not> length (items q) < uxLength q"

section \<open>Properties of the parser\<close>

subsection \<open>Evaluation and the shape of the result\<close>

lemmas scan_eval = sscanf_def conv_d_def scan_sign_def isspace_def isdigit_def
  decimal_value_def digit_value_def scan_decimal_def

lemma events_append: "events (xs @ ys) = events xs @ events ys"
  by (induction xs rule: events.induct) simp_all

lemma events_broadcasts: "events (concat (map ws_broadcast_message msgs)) = msgs"
  by (induction msgs) (simp_all add: ws_broadcast_message_def)

lemma events_parse:
  "events (snd (parse_and_broadcast_line strtof line s)) =
     build_log_message line # snd (parse_patterns strtof line s)"
  by (simp add: parse_and_broadcast_line_def split_beta events_append events_broadcasts
      ws_broadcast_message_def)

lemma fst_parse:
  "fst (parse_and_broadcast_line strtof line s) = fst (parse_patterns strtof line s)"
  by (simp add: parse_and_broadcast_line_def split_beta)

lemmas block_defs = parse_patterns_def parse_temperature_def parse_dual_zone_def
  parse_heatbreak_def parse_chamber_def parse_power_def parse_pwm_def parse_progress_def
  parse_time_left_def parse_change_def scan_minutes_def parse_position_def cut_at_count_def
  parse_done_def SERIAL_LINE_BUFFER_SIZE_def Let_def

subsection \<open>What each block leaves alone\<close>

lemma parse_progress_temps:
  "current_temps (fst (parse_progress strtof line s)) = current_temps s"
  by (simp add: parse_progress_def Let_def split: option.splits)

lemma parse_time_left_temps:
  "current_temps (fst (parse_time_left strtof line s)) = current_temps s"
  by (simp add: parse_time_left_def Let_def split: option.splits)

lemma parse_change_temps:
  "current_temps (fst (parse_change strtof line s)) = current_temps s"
  by (simp add: parse_change_def Let_def split: option.splits)

lemma parse_position_temps:
  "current_temps (fst (parse_position strtof line s)) = current_temps s"
  by (simp add: parse_position_def Let_def split: option.splits)

lemma parse_done_temps:
  "current_temps (fst (parse_done line s)) = current_temps s"
  by (simp add: parse_done_def Let_def)

lemma parse_patterns_temps:
  "current_temps (fst (parse_patterns strtof line s)) =
     current_temps (fst (parse_temperature strtof line s))"
  by (simp add: parse_patterns_def split_beta parse_progress_temps parse_time_left_temps
      parse_change_temps parse_position_temps parse_done_temps)

lemma parse_progress_kinds:
  "filter is_temperature (snd (parse_progress strtof line s)) = []"
  "filter is_log (snd (parse_progress strtof line s)) = []"
  by (simp_all add: parse_progress_def Let_def split: option.splits)

lemma parse_time_left_kinds:
  "filter is_temperature (snd (parse_time_left strtof line s)) = []"
  "filter is_log (snd (parse_time_left strtof line s)) = []"
  by (simp_all add: parse_time_left_def Let_def split: option.splits)

lemma parse_change_kinds:
  "filter is_temperature (snd (parse_change strtof line s)) = []"
  "filter is_log (snd (parse_change strtof line s)) = []"
  by (simp_all add: parse_change_def Let_def split: option.splits)

lemma parse_position_kinds:
  "filter is_temperature (snd (parse_position strtof line s)) = []"
  "filter is_log (snd (parse_position strtof line s)) = []"
  by (simp_all add: parse_position_def Let_def split: option.splits)

lemma parse_done_kinds:
  "filter is_temperature (snd (parse_done line s)) = []"
  "filter is_log (snd (parse_done line s)) = []"
  by (simp_all add: parse_done_def Let_def)

lemma parse_temperature_no_log:
  "filter is_log (snd (parse_temperature strtof line s)) = []"
  by (simp add: parse_temperature_def Let_def split_beta split: option.splits)


lemma parse_patterns_no_log:
  "filter is_log (snd (parse_patterns strtof line s)) = []"
  by (simp add: parse_patterns_def split_beta parse_progress_kinds parse_time_left_kinds
      parse_change_kinds parse_position_kinds parse_done_kinds parse_temperature_no_log)

subsection \<open>The temperature block\<close>


lemma parse_chamber_frame:
  "nozzle_current (parse_chamber strtof line t) = nozzle_current t"
  "nozzle_target (parse_chamber strtof line t) = nozzle_target t"
  "bed_current (parse_chamber strtof line t) = bed_current t"
  "bed_target (parse_chamber strtof line t) = bed_target t"
  "heatbreak_current (parse_chamber strtof line t) = heatbreak_current t"
  "heatbreak_target (parse_chamber strtof line t) = heatbreak_target t"
  by (simp_all add: parse_chamber_def split: option.splits)

lemma temperature_block_skipped:
  "strstr line ''T:'' = None \<or> strstr line ''B:'' = None \<Longrightarrow>
     parse_temperature strtof line s = (s, [])"
  by (auto simp add: parse_temperature_def split: option.splits)



subsection \<open>The progress fields\<close>







lemma temperature_block_heatbreak:
  assumes "strstr line ''T:'' = Some t_pos" "strstr line ''B:'' = Some b_pos"
    and "strstr line ''X:'' = Some x_pos"
    and "two_floats (sscanf strtof x_pos ''X:%f/%f'') = Some (hc, ht)"
  shows "heatbreak_current (current_temps (fst (parse_temperature strtof line s))) = hc"
    and "heatbreak_target (current_temps (fst (parse_temperature strtof line s))) = ht"
  using assms
  by (simp_all add: parse_temperature_def Let_def split_beta parse_chamber_frame
      parse_heatbreak_def)

lemma temperature_block_chamber:
  assumes "strstr line ''T:'' = Some t_pos" "strstr line ''B:'' = Some b_pos"
    and "strstr line ''C@:'' = Some c_pos"
    and "one_float (sscanf strtof c_pos ''C@:%f'') = Some ch"
  shows "chamber_current (current_temps (fst (parse_temperature strtof line s))) = ch"
  using assms
  by (simp add: parse_temperature_def Let_def split_beta parse_chamber_def)

subsection \<open>Malformed values\<close>

lemma time_left_soon:
  "scan_minutes strtof ''Time left: soon'' ''Time left: %dh %dm'' ''Time left: %dm'' = None"
  by (simp add: scan_minutes_def scan_eval)

lemma change_soon:
  "scan_minutes strtof ''Change: soon'' ''Change: %dh %dm'' ''Change: %dm'' = None"
  by (simp add: scan_minutes_def scan_eval)

text \<open>
  Claim C1: a marker whose value does not parse counts as no match; no event is sent for
  its dimension and the state keeps its value. For \<^verbatim>\<open>Time left:\<close> and \<^verbatim>\<open>Change:\<close> the
  second half holds and the first does not: on the lines \<^verbatim>\<open>Time left: soon\<close> and
  \<^verbatim>\<open>Change: soon\<close> neither format stores a value and the state is returned as it was,
  yet a progress message is broadcast after the log message.
\<close>

theorem malformed_time_left_still_broadcasts:
  "scan_minutes strtof ''Time left: soon'' ''Time left: %dh %dm'' ''Time left: %dm'' = None \<and>
   fst (parse_and_broadcast_line strtof ''Time left: soon'' s) = s \<and>
   events (snd (parse_and_broadcast_line strtof ''Time left: soon'' s)) =
     [build_log_message ''Time left: soon'', Progress (current_progress s)] \<and>
   scan_minutes strtof ''Change: soon'' ''Change: %dh %dm'' ''Change: %dm'' = None \<and>
   fst (parse_and_broadcast_line strtof ''Change: soon'' s) = s \<and>
   events (snd (parse_and_broadcast_line strtof ''Change: soon'' s)) =
     [build_log_message ''Change: soon'', Progress (current_progress s)]"
  by (simp add: events_parse fst_parse parse_patterns_def parse_temperature_def
      parse_progress_def parse_time_left_def parse_change_def parse_position_def
      parse_done_def time_left_soon change_soon)

text \<open>The sibling block: a \<^verbatim>\<open>Progress:\<close> marker without a number sends nothing.\<close>

lemma malformed_progress_is_silent:
  "parse_and_broadcast_line strtof ''M73 Progress: soon'' s =
     (s, ws_broadcast_message (build_log_message ''M73 Progress: soon'')
         @ [Take printer_state_mutex, Give printer_state_mutex])"
  by (simp add: parse_and_broadcast_line_def block_defs scan_eval)

subsection \<open>Position lines\<close>

text \<open>
  Claim C3: the line \<^verbatim>\<open>X:10.00 Y:20.00 Z:1.50 E:0.00 Count ...\<close> yields a position
  event with x = 10.00, y = 20.00, z = 1.50, e = 0.00. In the code the format starts
  with \<^verbatim>\<open>%*[^X]\<close>, which needs at least one character before the first \<^verbatim>\<open>X\<close>; the
  line starts with \<^verbatim>\<open>X\<close>, so \<^verbatim>\<open>sscanf\<close> stores nothing: whatever the float reader,
  the state is returned as it was and the log message is the only message broadcast.
\<close>

theorem position_line_from_start_not_parsed:
  "fst (parse_and_broadcast_line strtof ''X:10.00 Y:20.00 Z:1.50 E:0.00 Count ...'' s) = s \<and>
   events (snd (parse_and_broadcast_line strtof ''X:10.00 Y:20.00 Z:1.50 E:0.00 Count ...'' s)) =
     [build_log_message ''X:10.00 Y:20.00 Z:1.50 E:0.00 Count ...'']"
  by (simp add: events_parse fst_parse parse_patterns_def parse_temperature_def
      parse_progress_def parse_time_left_def parse_change_def parse_position_def
      parse_done_def cut_at_count_def SERIAL_LINE_BUFFER_SIZE_def sscanf_def isspace_def)

text \<open>The same line after one space is parsed, with the plain decimal reader.\<close>

lemma position_line_after_space:
  "events (snd (parse_and_broadcast_line scan_decimal
       '' X:10.00 Y:20.00 Z:1.50 E:0.00 Count ...'' initial_state)) =
     [build_log_message '' X:10.00 Y:20.00 Z:1.50 E:0.00 Count ...'',
      Position \<lparr>pos_x = 10, pos_y = 20, pos_z = 3 / 2, pos_e = 0\<rparr>]"
  by (simp add: events_parse fst_parse parse_patterns_def parse_temperature_def
      parse_progress_def parse_time_left_def parse_change_def parse_position_def
      parse_done_def cut_at_count_def SERIAL_LINE_BUFFER_SIZE_def scan_eval initial_state_def Let_def)

text \<open>No line that starts with \<^verbatim>\<open>X\<close> gets through the position block.\<close>

lemma cut_at_count_X:
  "cut_at_count (CHR ''X'' # rest) = [] \<or> hd (cut_at_count (CHR ''X'' # rest)) = CHR ''X''"
proof -
  let ?t = "take (SERIAL_LINE_BUFFER_SIZE - 1) (CHR ''X'' # rest)"
  have t: "?t = CHR ''X'' # take 510 rest" by (simp add: SERIAL_LINE_BUFFER_SIZE_def)
  have pre: "take n ?t = [] \<or> hd (take n ?t) = CHR ''X''" for n
    unfolding t by (cases n) simp_all
  show ?thesis
  proof (cases "strstr ?t ''Count''")
    case None
    then have "cut_at_count (CHR ''X'' # rest) = ?t"
      by (simp only: cut_at_count_def Let_def option.case)
    then show ?thesis by (simp add: SERIAL_LINE_BUFFER_SIZE_def)
  next
    case (Some count_pos)
    then have "cut_at_count (CHR ''X'' # rest) = take (length ?t - length count_pos) ?t"
      by (simp only: cut_at_count_def Let_def option.case)
    with pre [of "length ?t - length count_pos"] show ?thesis by (simp only:)
  qed
qed

lemma position_block_skips_line_starting_with_X:
  "parse_position strtof (CHR ''X'' # rest) s = (s, [])"
proof -
  have "sscanf strtof (cut_at_count (CHR ''X'' # rest)) ''%*[^X]X:%f Y:%f Z:%f E:%f'' = []"
    using cut_at_count_X [of rest]
    by (cases "cut_at_count (CHR ''X'' # rest)") (auto simp add: sscanf_def)
  then show ?thesis by (simp add: parse_position_def)
qed

lemma position_needs_four_markers:
  "strstr line ''X:'' = None \<or> strstr line ''Y:'' = None \<or> strstr line ''Z:'' = None \<or>
   strstr line ''E:'' = None \<Longrightarrow> parse_position strtof line s = (s, [])"
  by (auto simp add: parse_position_def)

subsection \<open>Temperature lines\<close>




text \<open>
  Claim C2: a heatbreak marker \<^verbatim>\<open>X:cur/tgt\<close> or chamber marker \<^verbatim>\<open>C@:v\<close> whose value
  parses updates its field whether or not the nozzle and bed pair is on the line. In
  the code both markers are read inside the block guarded by \<^verbatim>\<open>T:\<close> and \<^verbatim>\<open>B:\<close>: on
  a line \<^verbatim>\<open>X:45.0/45.0\<close> or \<^verbatim>\<open>C@:22.5\<close> alone the marker is there and its value
  parses, and the field keeps its value 0.
\<close>

lemma heatbreak_line_alone:
  "parse_patterns scan_decimal ''X:45.0/45.0'' s = (s, [])"
  by (simp add: block_defs)

theorem heatbreak_alone_not_updated:
  "strstr ''X:45.0/45.0'' ''X:'' = Some ''X:45.0/45.0'' \<and>
   two_floats (sscanf scan_decimal ''X:45.0/45.0'' ''X:%f/%f'') = Some (45, 45) \<and>
   heatbreak_current (current_temps (fst (parse_and_broadcast_line scan_decimal
      ''X:45.0/45.0'' initial_state))) = 0 \<and>
   strstr ''C@:22.5'' ''C@:'' = Some ''C@:22.5'' \<and>
   one_float (sscanf scan_decimal ''C@:22.5'' ''C@:%f'') = Some (45 / 2) \<and>
   chamber_current (current_temps (fst (parse_and_broadcast_line scan_decimal
      ''C@:22.5'' initial_state))) = 0"
  by (simp add: fst_parse heatbreak_line_alone scan_eval initial_state_def block_defs)

text \<open>
  Claim C2 as the code has it: on a line that has both \<^verbatim>\<open>T:\<close> and \<^verbatim>\<open>B:\<close> (whether
  or not their pairs parse), a heatbreak marker whose pair parses sets the heatbreak
  values and a chamber marker whose value parses sets the chamber value; on a line
  that lacks \<^verbatim>\<open>T:\<close> or \<^verbatim>\<open>B:\<close> no temperature is changed.
\<close>

theorem auxiliary_zones_inside_dual_zone_block:
  "(strstr line ''T:'' \<noteq> None \<and> strstr line ''B:'' \<noteq> None \<and>
    strstr line ''X:'' = Some x_pos \<and>
    two_floats (sscanf strtof x_pos ''X:%f/%f'') = Some (hc, ht) \<longrightarrow>
      heatbreak_current (current_temps (fst (parse_and_broadcast_line strtof line s))) = hc \<and>
      heatbreak_target (current_temps (fst (parse_and_broadcast_line strtof line s))) = ht) \<and>
   (strstr line ''T:'' \<noteq> None \<and> strstr line ''B:'' \<noteq> None \<and>
    strstr line ''C@:'' = Some c_pos \<and>
    one_float (sscanf strtof c_pos ''C@:%f'') = Some ch \<longrightarrow>
      chamber_current (current_temps (fst (parse_and_broadcast_line strtof line s))) = ch) \<and>
   (strstr line ''T:'' = None \<or> strstr line ''B:'' = None \<longrightarrow>
      current_temps (fst (parse_and_broadcast_line strtof line s)) = current_temps s)"
proof (intro conjI impI)
  assume h: "strstr line ''T:'' \<noteq> None \<and> strstr line ''B:'' \<noteq> None \<and>
    strstr line ''X:'' = Some x_pos \<and>
    two_floats (sscanf strtof x_pos ''X:%f/%f'') = Some (hc, ht)"
  then obtain t_pos b_pos where
    "strstr line ''T:'' = Some t_pos" "strstr line ''B:'' = Some b_pos" by auto
  with h show
    "heatbreak_current (current_temps (fst (parse_and_broadcast_line strtof line s))) = hc"
    "heatbreak_target (current_temps (fst (parse_and_broadcast_line strtof line s))) = ht"
    by (simp_all add: fst_parse parse_patterns_temps
        temperature_block_heatbreak [of line t_pos b_pos x_pos strtof hc ht s])
next
  assume h: "strstr line ''T:'' \<noteq> None \<and> strstr line ''B:'' \<noteq> None \<and>
    strstr line ''C@:'' = Some c_pos \<and>
    one_float (sscanf strtof c_pos ''C@:%f'') = Some ch"
  then obtain t_pos b_pos where
    "strstr line ''T:'' = Some t_pos" "strstr line ''B:'' = Some b_pos" by auto
  with h show
    "chamber_current (current_temps (fst (parse_and_broadcast_line strtof line s))) = ch"
    by (simp add: fst_parse parse_patterns_temps
        temperature_block_chamber [of line t_pos b_pos c_pos strtof ch s])
next
  assume "strstr line ''T:'' = None \<or> strstr line ''B:'' = None"
  then show "current_temps (fst (parse_and_broadcast_line strtof line s)) = current_temps s"
    by (simp add: fst_parse parse_patterns_temps temperature_block_skipped)
qed

lemma line_T_B_X_C:
  "strstr ''T:1/2 B:3/4 X:45.0/36.0 C@:22.5'' ''T:'' = Some ''T:1/2 B:3/4 X:45.0/36.0 C@:22.5''"
  "strstr ''T:1/2 B:3/4 X:45.0/36.0 C@:22.5'' ''B:'' = Some ''B:3/4 X:45.0/36.0 C@:22.5''"
  "strstr ''T:1/2 B:3/4 X:45.0/36.0 C@:22.5'' ''X:'' = Some ''X:45.0/36.0 C@:22.5''"
  "strstr ''T:1/2 B:3/4 X:45.0/36.0 C@:22.5'' ''C@:'' = Some ''C@:22.5''"
  "two_floats (sscanf scan_decimal ''X:45.0/36.0 C@:22.5'' ''X:%f/%f'') = Some (45, 36)"
  "one_float (sscanf scan_decimal ''C@:22.5'' ''C@:%f'') = Some (45 / 2)"
  by (simp_all add: scan_eval)

text \<open>
  An instance of the theorem of claim C2: a temperature line with heatbreak and chamber
  markers, and a line with the heatbreak marker alone.
\<close>

theorem auxiliary_zones_witness:
  "strstr ''T:1/2 B:3/4 X:45.0/36.0 C@:22.5'' ''T:'' \<noteq> None \<and>
   strstr ''T:1/2 B:3/4 X:45.0/36.0 C@:22.5'' ''B:'' \<noteq> None \<and>
   strstr ''T:1/2 B:3/4 X:45.0/36.0 C@:22.5'' ''X:'' = Some ''X:45.0/36.0 C@:22.5'' \<and>
   two_floats (sscanf scan_decimal ''X:45.0/36.0 C@:22.5'' ''X:%f/%f'') = Some (45, 36) \<and>
   strstr ''T:1/2 B:3/4 X:45.0/36.0 C@:22.5'' ''C@:'' = Some ''C@:22.5'' \<and>
   one_float (sscanf scan_decimal ''C@:22.5'' ''C@:%f'') = Some (45 / 2) \<and>
   heatbreak_current (current_temps (fst (parse_and_broadcast_line scan_decimal
      ''T:1/2 B:3/4 X:45.0/36.0 C@:22.5'' initial_state))) = 45 \<and>
   heatbreak_target (current_temps (fst (parse_and_broadcast_line scan_decimal
      ''T:1/2 B:3/4 X:45.0/36.0 C@:22.5'' initial_state))) = 36 \<and>
   chamber_current (current_temps (fst (parse_and_broadcast_line scan_decimal
      ''T:1/2 B:3/4 X:45.0/36.0 C@:22.5'' initial_state))) = 45 / 2 \<and>
   strstr ''X:45.0/45.0'' ''T:'' = None \<and>
   current_temps (fst (parse_and_broadcast_line scan_decimal ''X:45.0/45.0'' initial_state)) =
     current_temps initial_state"
  using auxiliary_zones_inside_dual_zone_block [where
      line = "''T:1/2 B:3/4 X:45.0/36.0 C@:22.5''" and x_pos = "''X:45.0/36.0 C@:22.5''"
      and strtof = scan_decimal and hc = 45 and ht = 36 and c_pos = "''C@:22.5''"
      and ch = "45 / 2" and s = initial_state]
    auxiliary_zones_inside_dual_zone_block [where line = "''X:45.0/45.0''" and x_pos = "[]"
      and strtof = scan_decimal and hc = 0 and ht = 0 and c_pos = "[]" and ch = 0
      and s = initial_state]
  by (simp add: line_T_B_X_C)

subsection \<open>Print completion\<close>





subsection \<open>The log message\<close>

lemma escape_bound: "WS_MAX_PAYLOAD_SIZE div 2 - 2 = 254"
  by (simp add: WS_MAX_PAYLOAD_SIZE_def)

lemma escape_all_Cons:
  "escape_all (c # cs) =
     (if c = CHR 0x22 \<or> c = CHR 0x5C then [CHR 0x5C, c] else [c]) @ escape_all cs"
  by (simp add: escape_all_def)

lemma escape_loop_prefix: "prefix (escape_loop j cs) (escape_all cs)"
  by (induction cs arbitrary: j) (simp_all add: escape_all_Cons escape_all_def)

lemma escape_loop_length: "j \<le> 255 \<Longrightarrow> j + length (escape_loop j cs) \<le> 255"
proof (induction cs arbitrary: j)
  case Nil
  then show ?case by simp
next
  case (Cons c cs)
  show ?case
  proof (cases "j < 254")
    case True
    then have "j + 2 + length (escape_loop (j + 2) cs) \<le> 255"
      and "j + 1 + length (escape_loop (j + 1) cs) \<le> 255"
      using Cons.IH [of "j + 2"] Cons.IH [of "j + 1"] by simp_all
    with True show ?thesis by (simp add: escape_bound)
  next
    case False
    with Cons.prems show ?thesis by (simp add: escape_bound)
  qed
qed

lemma escape_loop_complete:
  "j + length (escape_all cs) \<le> 254 \<Longrightarrow> escape_loop j cs = escape_all cs"
proof (induction cs arbitrary: j)
  case Nil
  then show ?case by (simp add: escape_all_def)
next
  case (Cons c cs)
  then show ?case by (auto simp add: escape_all_Cons escape_bound)
qed

lemma escape_loop_cut:
  "escape_loop j cs \<noteq> escape_all cs \<Longrightarrow> 254 \<le> j + length (escape_loop j cs)"
proof (induction cs arbitrary: j)
  case Nil
  then show ?case by (simp add: escape_all_def)
next
  case (Cons c cs)
  show ?case
  proof (cases "j < 254")
    case True
    with Cons.prems have "escape_loop (if c = CHR 0x22 \<or> c = CHR 0x5C then j + 2 else j + 1) cs
        \<noteq> escape_all cs"
      by (auto simp add: escape_all_Cons escape_bound split: if_splits)
    from Cons.IH [OF this] True show ?thesis
      by (auto simp add: escape_bound split: if_splits)
  next
    case False
    then show ?thesis by simp
  qed
qed

lemma escape_loop_replicate:
  "c \<noteq> CHR 0x22 \<Longrightarrow> c \<noteq> CHR 0x5C \<Longrightarrow>
     escape_loop j (replicate n c) = replicate (min n (254 - j)) c"
proof (induction n arbitrary: j)
  case 0
  then show ?case by simp
next
  case (Suc n)
  show ?case
  proof (cases "j < 254")
    case True
    then have "min (Suc n) (254 - j) = Suc (min n (254 - (j + 1)))" by simp
    with True Suc show ?thesis by (simp add: escape_bound)
  next
    case False
    then show ?thesis by (simp add: escape_bound)
  qed
qed

lemma log_payload_not_cut:
  "build_log_message line = Log (log_frame_open @ escape_loop 0 line @ log_frame_close)"
proof -
  have "length (escape_loop 0 line) \<le> 255"
    using escape_loop_length [of 0 line] by simp
  then have "length (log_frame_open @ escape_loop 0 line @ log_frame_close)
      \<le> WS_MAX_PAYLOAD_SIZE - 1"
    by (simp add: log_frame_open_def log_frame_close_def WS_MAX_PAYLOAD_SIZE_def)
  then show ?thesis by (simp add: build_log_message_def)
qed

text \<open>
  Claim C8: every line produces exactly one log event carrying the text of the line
  with double quotes and backslashes escaped. The escaping loop stops once 254 bytes
  are written: of a line of 300 letters the log event carries the first 254.
\<close>

theorem long_line_log_is_cut:
  "filter is_log (events (snd (parse_and_broadcast_line scan_decimal
      (replicate 300 (CHR ''a'')) initial_state))) =
     [Log (log_frame_open @ replicate 254 (CHR ''a'') @ log_frame_close)] \<and>
   escape_all (replicate 300 (CHR ''a'')) = replicate 300 (CHR ''a'')"
proof -
  have "concat (replicate n [c]) = replicate n c" for n and c :: char
    by (induction n) simp_all
  then show ?thesis
    by (simp add: events_parse parse_patterns_no_log log_payload_not_cut
        escape_loop_replicate escape_all_def)
qed

text \<open>
  Claim C8 as the code has it: whatever patterns the line matches, exactly one log
  event is sent. Its payload is the frame around the text written by the escaping
  loop, which is a prefix of the escaped line of at most 255 bytes: the whole escaped
  line when that has at most 254 bytes, and at least 254 bytes of it when it is cut.
\<close>

theorem one_log_event_per_line:
  "filter is_log (events (snd (parse_and_broadcast_line strtof line s))) =
     [Log (log_frame_open @ escape_loop 0 line @ log_frame_close)] \<and>
   prefix (escape_loop 0 line) (escape_all line) \<and>
   length (escape_loop 0 line) \<le> 255 \<and>
   (length (escape_all line) \<le> 254 \<longrightarrow> escape_loop 0 line = escape_all line) \<and>
   (escape_loop 0 line \<noteq> escape_all line \<longrightarrow> 254 \<le> length (escape_loop 0 line))"
  using escape_loop_length [of 0 line] escape_loop_complete [of 0 line]
    escape_loop_cut [of 0 line]
  by (simp add: events_parse parse_patterns_no_log log_payload_not_cut escape_loop_prefix)

text \<open>
  An instance of the theorem of claim C8: a short line with a double quote, and a line
  of 300 letters.
\<close>

theorem one_log_event_per_line_witness:
  "length (escape_all [CHR ''a'', CHR 0x22, CHR ''b'']) \<le> 254 \<and>
   filter is_log (events (snd (parse_and_broadcast_line scan_decimal
      [CHR ''a'', CHR 0x22, CHR ''b''] initial_state))) =
     [Log (log_frame_open @ [CHR ''a'', CHR 0x5C, CHR 0x22, CHR ''b''] @ log_frame_close)] \<and>
   escape_loop 0 (replicate 300 (CHR ''a'')) \<noteq> escape_all (replicate 300 (CHR ''a'')) \<and>
   254 \<le> length (escape_loop 0 (replicate 300 (CHR ''a'')))"
proof -
  have e: "escape_all [CHR ''a'', CHR 0x22, CHR ''b''] = [CHR ''a'', CHR 0x5C, CHR 0x22, CHR ''b'']"
    by (simp add: escape_all_def)
  have n: "escape_loop 0 (replicate 300 (CHR ''a'')) \<noteq> escape_all (replicate 300 (CHR ''a''))"
  proof
    assume "escape_loop 0 (replicate 300 (CHR ''a'')) = escape_all (replicate 300 (CHR ''a''))"
    then have "length (escape_loop 0 (replicate 300 (CHR ''a''))) =
        length (escape_all (replicate 300 (CHR ''a'')))" by simp
    then show False by (simp add: escape_loop_replicate escape_all_def length_concat)
  qed
  show ?thesis
    using one_log_event_per_line [of scan_decimal "[CHR ''a'', CHR 0x22, CHR ''b'']" initial_state]
      one_log_event_per_line [of scan_decimal "replicate 300 (CHR ''a'')" initial_state] n
    by (simp add: e)
qed

section \<open>Properties of the line assembler\<close>

text \<open>Feeding the data in two chunks is feeding it in one.\<close>

lemma handle_rx_append:
  "handle_rx buf (d1 @ d2) =
     (fst (handle_rx buf d1) @ fst (handle_rx (snd (handle_rx buf d1)) d2),
      snd (handle_rx (snd (handle_rx buf d1)) d2))"
  by (induction d1 arbitrary: buf) (simp_all add: split_beta)

lemma c_str_length: "length (c_str l) \<le> length l"
  by (simp add: c_str_def length_takeWhile_le)

lemma c_str_id: "CHR 0x00 \<notin> set l \<Longrightarrow> c_str l = l"
  by (auto simp add: c_str_def takeWhile_eq_all_conv)

lemma handle_rx_bounds:
  "length buf \<le> 511 \<Longrightarrow>
     (\<forall>l \<in> set (fst (handle_rx buf data)). length l \<le> 511) \<and>
     length (snd (handle_rx buf data)) \<le> 511"
proof (induction data arbitrary: buf)
  case Nil
  then show ?case by simp
next
  case (Cons c data)
  have empty: "(\<forall>l \<in> set (fst (handle_rx [] data)). length l \<le> 511) \<and>
     length (snd (handle_rx [] data)) \<le> 511"
    using Cons.IH [of "[]"] by simp
  have flush: "length (c_str buf) \<le> 511"
    using c_str_length [of buf] Cons.prems by simp
  show ?case
  proof (cases "c = CHR 0x0A \<or> c = CHR 0x0D")
    case True
    with empty flush Cons.IH [OF Cons.prems] show ?thesis
      by (auto simp add: split_beta)
  next
    case False
    show ?thesis
    proof (cases "length buf < 511")
      case True
      then have "length (buf @ [c]) \<le> 511" by simp
      from Cons.IH [OF this] False True show ?thesis
        by (simp add: SERIAL_LINE_BUFFER_SIZE_def)
    next
      case full: False
      with False empty flush show ?thesis
        by (auto simp add: SERIAL_LINE_BUFFER_SIZE_def split_beta)
    qed
  qed
qed

lemma handle_rx_nonempty:
  "CHR 0x00 \<notin> set buf \<union> set data \<Longrightarrow> \<forall>l \<in> set (fst (handle_rx buf data)). l \<noteq> []"
proof (induction data arbitrary: buf)
  case Nil
  then show ?case by simp
next
  case (Cons c data)
  from Cons.prems have nul: "CHR 0x00 \<notin> set buf" "CHR 0x00 \<notin> set data" "c \<noteq> CHR 0x00"
    by auto
  then have a: "\<forall>l \<in> set (fst (handle_rx [] data)). l \<noteq> []"
    and b: "\<forall>l \<in> set (fst (handle_rx buf data)). l \<noteq> []"
    and d: "\<forall>l \<in> set (fst (handle_rx (buf @ [c]) data)). l \<noteq> []"
    using Cons.IH [of "[]"] Cons.IH [of buf] Cons.IH [of "buf @ [c]"] by auto
  have e: "0 < length buf \<Longrightarrow> c_str buf \<noteq> []"
    using nul(1) by (simp add: c_str_id)
  have f: "\<not> length buf < SERIAL_LINE_BUFFER_SIZE - 1 \<Longrightarrow> c_str buf \<noteq> []"
    using nul(1) by (auto simp add: c_str_id SERIAL_LINE_BUFFER_SIZE_def)
  show ?case
    using a b d e f by (auto simp add: split_beta)
qed

text \<open>
  Claim C9: for every byte sequence, every line emitted is non-empty and at most as long
  as the buffer, and the accumulated length never exceeds the bound. The line is
  handed over as a C string, which ends at the first NUL byte: a line of the data that
  starts with a NUL byte is emitted as the empty string.
\<close>

theorem nul_byte_gives_empty_line:
  "handle_rx [] [CHR 0x00, CHR ''o'', CHR ''k'', CHR 0x0A] = ([[]], [])"
  by (simp add: SERIAL_LINE_BUFFER_SIZE_def c_str_def)

text \<open>
  Claim C9 as the code has it: from a buffer holding at most 511 bytes, every line
  emitted has at most 511 bytes and the buffer holds at most 511 bytes afterwards,
  whatever the data; when neither buffer nor data holds a NUL byte, every line
  emitted is non-empty; a terminator met with an empty buffer emits nothing; and a
  byte other than a terminator met with 511 bytes in the buffer flushes them as a
  line and leaves the buffer empty.
\<close>

theorem line_assembler_bounds:
  assumes "length buf \<le> SERIAL_LINE_BUFFER_SIZE - 1"
  shows "(\<forall>l \<in> set (fst (handle_rx buf data)). length l \<le> SERIAL_LINE_BUFFER_SIZE - 1) \<and>
         length (snd (handle_rx buf data)) \<le> SERIAL_LINE_BUFFER_SIZE - 1 \<and>
         (CHR 0x00 \<notin> set buf \<union> set data \<longrightarrow>
            (\<forall>l \<in> set (fst (handle_rx buf data)). l \<noteq> [])) \<and>
         (\<forall>c. (c = CHR 0x0A \<or> c = CHR 0x0D) \<and> buf = [] \<longrightarrow>
            handle_rx buf (c # data) = handle_rx [] data) \<and>
         (\<forall>c. length buf = SERIAL_LINE_BUFFER_SIZE - 1 \<and> c \<noteq> CHR 0x0A \<and> c \<noteq> CHR 0x0D \<longrightarrow>
            fst (handle_rx buf (c # data)) = c_str buf # fst (handle_rx [] data) \<and>
            snd (handle_rx buf (c # data)) = snd (handle_rx [] data))"
  using assms handle_rx_bounds [of buf data] handle_rx_nonempty [of buf data]
  by (simp add: SERIAL_LINE_BUFFER_SIZE_def split_beta)

text \<open>
  An instance of the theorem of claim C9: a chunk with two terminators in a row, a
  terminator met with an empty buffer, and a byte met with a full buffer.
\<close>

theorem line_assembler_bounds_witness:
  "length ''ok'' \<le> SERIAL_LINE_BUFFER_SIZE - 1 \<and>
   CHR 0x00 \<notin> set ''ok'' \<union> set [CHR 0x0D, CHR 0x0A, CHR ''T'', CHR '':'', CHR 0x0A, CHR ''X''] \<and>
   handle_rx ''ok'' [CHR 0x0D, CHR 0x0A, CHR ''T'', CHR '':'', CHR 0x0A, CHR ''X''] =
     ([''ok'', ''T:''], ''X'') \<and>
   handle_rx [] (CHR 0x0A # ''ok'') = handle_rx [] ''ok'' \<and>
   length (replicate 511 (CHR ''a'')) = SERIAL_LINE_BUFFER_SIZE - 1 \<and>
   fst (handle_rx (replicate 511 (CHR ''a'')) (CHR ''b'' # [CHR ''c'', CHR 0x0A])) =
     c_str (replicate 511 (CHR ''a'')) # fst (handle_rx [] [CHR ''c'', CHR 0x0A])"
  using line_assembler_bounds [of "''ok''"
      "[CHR 0x0D, CHR 0x0A, CHR ''T'', CHR '':'', CHR 0x0A, CHR ''X'']"]
    line_assembler_bounds [of "[]" "''ok''"]
    line_assembler_bounds [of "replicate 511 (CHR ''a'')" "[CHR ''c'', CHR 0x0A]"]
  by (simp add: SERIAL_LINE_BUFFER_SIZE_def c_str_def)



section \<open>Properties of the client queues\<close>

lemma xQueueSend_items:
  "items (fst (xQueueSend q m)) = items q @ take (uxLength q - length (items q)) [m]"
  by (simp add: xQueueSend_def)

lemma xQueueSend_uxLength: "uxLength (fst (xQueueSend q m)) = uxLength q"
  by (simp add: xQueueSend_def)

lemma send_all_items:
  "items (foldl (\<lambda>q m. fst (xQueueSend q m)) q msgs) =
     items q @ take (uxLength q - length (items q)) msgs"
proof (induction msgs arbitrary: q)
  case Nil
  then show ?case by simp
next
  case (Cons m msgs)
  let ?q = "fst (xQueueSend q m)"
  have step: "items (foldl (\<lambda>q m. fst (xQueueSend q m)) q (m # msgs)) =
      items ?q @ take (uxLength ?q - length (items ?q)) msgs"
    using Cons.IH [of ?q] by simp
  show ?case
  proof (cases "length (items q) < uxLength q")
    case True
    then obtain k where k: "uxLength q - length (items q) = Suc k"
      by (metis Suc_diff_Suc)
    with True have "uxLength q - Suc (length (items q)) = k" by simp
    with True k show ?thesis
      unfolding step by (simp add: xQueueSend_items xQueueSend_uxLength)
  next
    case False
    then show ?thesis
      unfolding step by (simp add: xQueueSend_items xQueueSend_uxLength)
  qed
qed

lemma send_all_uxLength:
  "uxLength (foldl (\<lambda>q m. fst (xQueueSend q m)) q msgs) = uxLength q"
  by (induction msgs arbitrary: q) (simp_all add: xQueueSend_uxLength)

lemma deliver_broadcasts:
  "deliver (concat (map ws_broadcast_message msgs)) cs =
     foldl (\<lambda>cs m. send_to_clients m cs) cs msgs"
  by (induction msgs arbitrary: cs) (simp_all add: ws_broadcast_message_def)

lemma publish_active_client:
  "i < length cs \<Longrightarrow> active (cs ! i) \<Longrightarrow>
     foldl (\<lambda>cs m. send_to_clients m cs) cs msgs ! i =
       (cs ! i)\<lparr>message_queue :=
          foldl (\<lambda>q m. fst (xQueueSend q m)) (message_queue (cs ! i)) msgs\<rparr>"
proof (induction msgs arbitrary: cs)
  case Nil
  then show ?case by simp
next
  case (Cons m msgs)
  let ?cs = "send_to_clients m cs"
  from Cons.prems have "i < length ?cs" and "active (?cs ! i)"
    and "?cs ! i = (cs ! i)\<lparr>message_queue := fst (xQueueSend (message_queue (cs ! i)) m)\<rparr>"
    by (simp_all add: send_to_clients_def)
  with Cons.IH [of ?cs] show ?case by simp
qed

text \<open>
  What the queue keeps, for publishes that return: a client is active and its queue of
  capacity 50 is empty; 51 messages are published with no receive in between. Then the
  queue holds the first 50 in the order published, the oldest is the next one
  received, and the 51st is not in the queue.
\<close>

lemma full_queue_drops_newest:
  assumes "i < length cs" and "active (cs ! i)"
    and "items (message_queue (cs ! i)) = []"
    and "uxLength (message_queue (cs ! i)) = WS_MESSAGE_QUEUE_SIZE"
    and "length msgs = WS_MESSAGE_QUEUE_SIZE + 1"
  shows "items (message_queue (deliver (concat (map ws_broadcast_message msgs)) cs ! i)) =
           take WS_MESSAGE_QUEUE_SIZE msgs \<and>
         take WS_MESSAGE_QUEUE_SIZE msgs = butlast msgs \<and>
         length (butlast msgs) = WS_MESSAGE_QUEUE_SIZE \<and>
         snd (xQueueReceive (message_queue
               (deliver (concat (map ws_broadcast_message msgs)) cs ! i))) = Some (hd msgs) \<and>
         active (deliver (concat (map ws_broadcast_message msgs)) cs ! i) \<and>
         fd (deliver (concat (map ws_broadcast_message msgs)) cs ! i) = fd (cs ! i)"
proof -
  have q: "deliver (concat (map ws_broadcast_message msgs)) cs ! i =
      (cs ! i)\<lparr>message_queue :=
         foldl (\<lambda>q m. fst (xQueueSend q m)) (message_queue (cs ! i)) msgs\<rparr>"
    using assms(1,2) by (simp add: deliver_broadcasts publish_active_client)
  have kept: "items (message_queue (deliver (concat (map ws_broadcast_message msgs)) cs ! i)) =
      take WS_MESSAGE_QUEUE_SIZE msgs"
    using assms(3,4) by (simp add: q send_all_items)
  have bl: "take WS_MESSAGE_QUEUE_SIZE msgs = butlast msgs"
    using assms(5) by (simp add: butlast_conv_take)
  from assms(5) obtain m ms where ms: "msgs = m # ms"
    by (cases msgs) (simp_all add: WS_MESSAGE_QUEUE_SIZE_def)
  have "snd (xQueueReceive (message_queue
      (deliver (concat (map ws_broadcast_message msgs)) cs ! i))) = Some (hd msgs)"
    by (simp add: xQueueReceive_def kept) (simp add: ms WS_MESSAGE_QUEUE_SIZE_def)
  with kept bl assms(2,5) show ?thesis by (simp add: q)
qed

lemma first_client:
  "ws_client_add 7 0 (ws_clients_init :: rat ws_client list) =
     (0, \<lparr>fd = 7, active = True, message_queue = xQueueCreate WS_MESSAGE_QUEUE_SIZE\<rparr>
         # replicate 3 \<lparr>fd = - 1, active = False,
                         message_queue = xQueueCreate WS_MESSAGE_QUEUE_SIZE\<rparr>)"
  by (simp add: ws_clients_init_def WS_MAX_CLIENTS_def xQueueReset_def xQueueCreate_def
      numeral_eq_Suc)

lemma full_queue_drops_newest_instance:
  "0 < length (snd (ws_client_add 7 0 (ws_clients_init :: rat ws_client list))) \<and>
   active (snd (ws_client_add 7 0 (ws_clients_init :: rat ws_client list)) ! 0) \<and>
   items (message_queue (snd (ws_client_add 7 0 (ws_clients_init :: rat ws_client list)) ! 0)) = [] \<and>
   uxLength (message_queue (snd (ws_client_add 7 0 (ws_clients_init :: rat ws_client list)) ! 0))
     = WS_MESSAGE_QUEUE_SIZE \<and>
   length (replicate 50 (Status True) @ [Status False :: rat ws_message])
     = WS_MESSAGE_QUEUE_SIZE + 1 \<and>
   items (message_queue (deliver (concat (map ws_broadcast_message
       (replicate 50 (Status True) @ [Status False])))
       (snd (ws_client_add 7 0 ws_clients_init)) ! 0)) = replicate 50 (Status True :: rat ws_message)"
  using full_queue_drops_newest [of 0 "snd (ws_client_add 7 0 (ws_clients_init :: rat ws_client list))"
      "replicate 50 (Status True) @ [Status False]"]
  by (simp add: first_client xQueueCreate_def WS_MESSAGE_QUEUE_SIZE_def)

section \<open>Lock discipline\<close>

lemma lock_order_append:
  "lock_order h as \<Longrightarrow> lock_order [] bs \<Longrightarrow> lock_order h (as @ bs)"
  by (induction h as rule: lock_order.induct) simp_all

lemma lock_order_broadcasts:
  "lock_order [printer_state_mutex] (concat (map ws_broadcast_message msgs) @ as) =
     lock_order [printer_state_mutex] as"
  by (induction msgs) (simp_all add: ws_broadcast_message_def)

lemma lock_order_broadcast: "lock_order [] (ws_broadcast_message msg)"
  by (simp add: ws_broadcast_message_def)

lemma lock_order_parse: "lock_order [] (snd (parse_and_broadcast_line strtof line s))"
proof -
  have "lock_order [] ([Take printer_state_mutex]
      @ concat (map ws_broadcast_message (snd (parse_patterns strtof line s)))
      @ [Give printer_state_mutex])"
    by (simp add: lock_order_broadcasts)
  from lock_order_append [OF lock_order_broadcast this] show ?thesis
    by (simp only: parse_and_broadcast_line_def split_beta Let_def snd_conv)
qed






section \<open>Properties of a publish with the log hook\<close>

lemma broadcast_loop_default:
  "broadcast_loop False held msg cs = Returns (send_to_clients msg cs)"
  by (induction cs) (simp_all add: send_to_clients_def ESP_LOGW_def xQueueSend_def)

lemma broadcast_loop_room:
  "\<forall>c \<in> set cs. active c \<longrightarrow> \<not> queue_full (message_queue c) \<Longrightarrow>
     broadcast_loop hook held msg cs = Returns (send_to_clients msg cs)"
  by (induction cs) (simp_all add: send_to_clients_def xQueueSend_def queue_full_def)

lemma broadcast_loop_full:
  "ws_clients_mutex \<in> set held \<Longrightarrow> \<exists>c \<in> set cs. active c \<and> queue_full (message_queue c) \<Longrightarrow>
     broadcast_loop True held msg cs = Blocks"
proof (induction cs)
  case Nil
  then show ?case by simp
next
  case (Cons c cs)
  show ?case
  proof (cases "active c \<and> queue_full (message_queue c)")
    case True
    with Cons.prems(1) show ?thesis
      by (simp add: xQueueSend_def queue_full_def ESP_LOGW_def ws_log_vprintf_def
          xSemaphoreTake_def)
  next
    case False
    with Cons.prems(2) have "\<exists>c \<in> set cs. active c \<and> queue_full (message_queue c)" by auto
    from Cons.IH [OF Cons.prems(1) this] show ?thesis
      by (simp add: xQueueSend_def split: prod.splits outcome.splits)
  qed
qed

lemma exec_default:
  "lock_order held as \<Longrightarrow> exec False as (held, cs) = Returns ([], deliver as cs)"
  by (induction held as arbitrary: cs rule: lock_order.induct)
     (simp_all add: xSemaphoreTake_def broadcast_loop_default)


lemma broadcast_loop_returns:
  "broadcast_loop hook held msg cs = Returns cs' \<Longrightarrow> cs' = send_to_clients msg cs"
proof (induction cs arbitrary: cs')
  case Nil
  then show ?case by (simp add: send_to_clients_def)
next
  case (Cons c cs)
  from Cons.prems obtain cs'' where r: "broadcast_loop hook held msg cs = Returns cs''"
    by (auto split: if_splits prod.splits bool.splits outcome.splits)
  from Cons.IH [OF r] r Cons.prems show ?case
    by (auto simp add: send_to_clients_def xQueueSend_def split: if_splits outcome.splits)
qed

lemma exec_returns:
  "exec hook as (held, cs) = Returns (held', cs') \<Longrightarrow> cs' = deliver as cs"
proof (induction as arbitrary: held cs)
  case Nil
  then show ?case by simp
next
  case (Cons a as)
  show ?case
  proof (cases a)
    case (Take m)
    with Cons show ?thesis by (auto split: outcome.splits)
  next
    case (Give m)
    with Cons show ?thesis by auto
  next
    case (Send msg)
    with Cons.prems obtain cs1 where b: "broadcast_loop hook held msg cs = Returns cs1"
      and e: "exec hook as (held, cs1) = Returns (held', cs')"
      by (auto split: outcome.splits)
    from Cons.IH [OF e] broadcast_loop_returns [OF b] Send show ?thesis by simp
  qed
qed

lemma exec_publish_room:
  "\<forall>c \<in> set cs. active c \<longrightarrow> \<not> queue_full (message_queue c) \<Longrightarrow>
     exec hook (ws_broadcast_message msg @ as) ([], cs) =
       exec hook as ([], send_to_clients msg cs)"
  by (simp add: ws_broadcast_message_def xSemaphoreTake_def broadcast_loop_room)

lemma exec_publish_full:
  "\<exists>c \<in> set cs. active c \<and> queue_full (message_queue c) \<Longrightarrow>
     exec True (ws_broadcast_message msg @ as) ([], cs) = Blocks"
  by (simp add: ws_broadcast_message_def xSemaphoreTake_def broadcast_loop_full)

lemma send_to_clients_room:
  "\<forall>c \<in> set cs. active c \<longrightarrow> length (items (message_queue c)) + Suc n \<le> uxLength (message_queue c)
   \<Longrightarrow> \<forall>c \<in> set (send_to_clients msg cs).
         active c \<longrightarrow> length (items (message_queue c)) + n \<le> uxLength (message_queue c)"
  by (auto simp add: send_to_clients_def xQueueSend_def)

lemma deliver_publish:
  "deliver (ws_broadcast_message m @ as) cs = deliver as (send_to_clients m cs)"
  by (simp add: ws_broadcast_message_def)

lemma exec_publishes_room:
  "\<forall>c \<in> set cs. active c \<longrightarrow>
       length (items (message_queue c)) + length msgs \<le> uxLength (message_queue c) \<Longrightarrow>
     exec hook (concat (map ws_broadcast_message msgs) @ as) ([], cs) =
       exec hook as ([], deliver (concat (map ws_broadcast_message msgs)) cs)"
proof (induction msgs arbitrary: cs)
  case Nil
  then show ?case by simp
next
  case (Cons m msgs)
  let ?rest = "concat (map ws_broadcast_message msgs)"
  from Cons.prems have room: "\<forall>c \<in> set cs. active c \<longrightarrow> \<not> queue_full (message_queue c)"
    by (auto simp add: queue_full_def)
  from Cons.prems have later: "\<forall>c \<in> set (send_to_clients m cs). active c \<longrightarrow>
      length (items (message_queue c)) + length msgs \<le> uxLength (message_queue c)"
    using send_to_clients_room [of cs "length msgs" m] by simp
  have "exec hook (concat (map ws_broadcast_message (m # msgs)) @ as) ([], cs) =
      exec hook (ws_broadcast_message m @ (?rest @ as)) ([], cs)"
    by simp
  also have "\<dots> = exec hook (?rest @ as) ([], send_to_clients m cs)"
    by (rule exec_publish_room [OF room])
  also have "\<dots> = exec hook as ([], deliver ?rest (send_to_clients m cs))"
    by (rule Cons.IH [OF later])
  also have "deliver ?rest (send_to_clients m cs) =
      deliver (concat (map ws_broadcast_message (m # msgs))) cs"
    using deliver_publish [of m ?rest cs] by simp
  finally show ?case .
qed

lemma send_to_clients_Cons:
  "send_to_clients msg (c # cs) =
     (if active c then c\<lparr>message_queue := fst (xQueueSend (message_queue c) msg)\<rparr> else c)
       # send_to_clients msg cs"
  by (simp add: send_to_clients_def)

lemma send_to_clients_inactive:
  "\<forall>c \<in> set cs. \<not> active c \<Longrightarrow> send_to_clients msg cs = cs"
  by (induction cs) (simp_all add: send_to_clients_def)

lemma publishes_one_active:
  "active c \<Longrightarrow> \<forall>c \<in> set cs. \<not> active c \<Longrightarrow>
     deliver (concat (map ws_broadcast_message msgs)) (c # cs) =
       c\<lparr>message_queue := foldl (\<lambda>q m. fst (xQueueSend q m)) (message_queue c) msgs\<rparr> # cs"
proof (induction msgs arbitrary: c)
  case Nil
  then show ?case by simp
next
  case (Cons m msgs)
  let ?c = "c\<lparr>message_queue := fst (xQueueSend (message_queue c) m)\<rparr>"
  let ?rest = "concat (map ws_broadcast_message msgs)"
  from Cons.prems have "active ?c" by simp
  from Cons.IH [OF this Cons.prems(2)]
  have "deliver ?rest (?c # cs) =
      ?c\<lparr>message_queue := foldl (\<lambda>q m. fst (xQueueSend q m)) (message_queue ?c) msgs\<rparr> # cs" .
  moreover have "send_to_clients m (c # cs) = ?c # cs"
    using Cons.prems by (simp add: send_to_clients_Cons send_to_clients_inactive)
  moreover have "deliver (concat (map ws_broadcast_message (m # msgs))) (c # cs) =
      deliver ?rest (send_to_clients m (c # cs))"
    using deliver_publish [of m ?rest "c # cs"] by simp
  ultimately show ?case by simp
qed

lemma send_all:
  "foldl (\<lambda>q m. fst (xQueueSend q m)) q msgs =
     q\<lparr>items := items q @ take (uxLength q - length (items q)) msgs\<rparr>"
  by (rule queue.equality) (simp_all add: send_all_items send_all_uxLength)

lemma first_client_table:
  "snd (ws_client_add 7 0 (ws_clients_init :: rat ws_client list)) =
     \<lparr>fd = 7, active = True, message_queue = \<lparr>uxLength = 50, items = []\<rparr>\<rparr>
       # replicate 3 \<lparr>fd = - 1, active = False, message_queue = \<lparr>uxLength = 50, items = []\<rparr>\<rparr>"
  by (simp add: first_client xQueueCreate_def WS_MESSAGE_QUEUE_SIZE_def)

lemma fifty_published:
  "deliver (concat (map ws_broadcast_message (replicate 50 (Status True) @ later)))
       (snd (ws_client_add 7 0 (ws_clients_init :: rat ws_client list))) =
     \<lparr>fd = 7, active = True,
        message_queue = \<lparr>uxLength = 50, items = replicate 50 (Status True)\<rparr>\<rparr>
       # replicate 3 \<lparr>fd = - 1, active = False, message_queue = \<lparr>uxLength = 50, items = []\<rparr>\<rparr>"
  unfolding first_client_table
  by (subst publishes_one_active) (simp_all add: send_all)

lemma lock_order_broadcasts_only:
  "lock_order [] (concat (map ws_broadcast_message msgs))"
  by (induction msgs) (simp_all add: lock_order_append lock_order_broadcast)

text \<open>
  Claim C5: with a queue of capacity 50, publishing 51 events before any receive keeps
  the first 50 in order and drops the 51st, without an error and without blocking the
  publisher. The queue does keep the first 50, and with the default log output the
  51st publish returns with the queue unchanged. With \<^verbatim>\<open>ws_log_vprintf\<close> installed,
  as it is whenever the parser runs, the warning for the full queue is logged while
  \<^verbatim>\<open>ws_clients_mutex\<close> is held and re-enters \<^verbatim>\<open>ws_broadcast_message\<close>: the 51st
  publish never returns.
\<close>

theorem full_queue_warning_blocks_publisher:
  "exec True (concat (map ws_broadcast_message (replicate 50 (Status True))))
       ([], snd (ws_client_add 7 0 (ws_clients_init :: rat ws_client list))) =
     Returns ([],
       \<lparr>fd = 7, active = True,
          message_queue = \<lparr>uxLength = 50, items = replicate 50 (Status True)\<rparr>\<rparr>
         # replicate 3 \<lparr>fd = - 1, active = False,
                         message_queue = \<lparr>uxLength = 50, items = []\<rparr>\<rparr>) \<and>
   exec True (concat (map ws_broadcast_message (replicate 50 (Status True) @ [Status False])))
       ([], snd (ws_client_add 7 0 (ws_clients_init :: rat ws_client list))) = Blocks \<and>
   exec False (concat (map ws_broadcast_message (replicate 50 (Status True) @ [Status False])))
       ([], snd (ws_client_add 7 0 (ws_clients_init :: rat ws_client list))) =
     Returns ([],
       \<lparr>fd = 7, active = True,
          message_queue = \<lparr>uxLength = 50, items = replicate 50 (Status True)\<rparr>\<rparr>
         # replicate 3 \<lparr>fd = - 1, active = False,
                         message_queue = \<lparr>uxLength = 50, items = []\<rparr>\<rparr>)"
proof -
  let ?cs = "snd (ws_client_add 7 0 (ws_clients_init :: rat ws_client list))"
  let ?fifty = "replicate 50 (Status True) :: rat ws_message list"
  have room: "\<forall>c \<in> set ?cs. active c \<longrightarrow>
      length (items (message_queue c)) + length ?fifty \<le> uxLength (message_queue c)"
    by (simp add: first_client_table)
  have a: "exec True (concat (map ws_broadcast_message ?fifty)) ([], ?cs) =
      Returns ([], deliver (concat (map ws_broadcast_message ?fifty)) ?cs)"
    using exec_publishes_room [OF room, of True "[]"] by simp
  have "exec True (concat (map ws_broadcast_message (?fifty @ [Status False]))) ([], ?cs) =
      exec True (concat (map ws_broadcast_message ?fifty) @ ws_broadcast_message (Status False) @ [])
        ([], ?cs)"
    by simp
  also have "\<dots> = exec True (ws_broadcast_message (Status False) @ [])
      ([], deliver (concat (map ws_broadcast_message ?fifty)) ?cs)"
    by (rule exec_publishes_room [OF room])
  also have "\<dots> = Blocks"
    using fifty_published [of "[]"]
    by (intro exec_publish_full) (simp add: queue_full_def)
  finally have b: "exec True (concat (map ws_broadcast_message (?fifty @ [Status False])))
      ([], ?cs) = Blocks" .
  have "lock_order [] (concat (map ws_broadcast_message (?fifty @ [Status False])))"
    by (rule lock_order_broadcasts_only)
  from exec_default [OF this]
  have c: "exec False (concat (map ws_broadcast_message (?fifty @ [Status False]))) ([], ?cs) =
      Returns ([], deliver (concat (map ws_broadcast_message (?fifty @ [Status False]))) ?cs)" .
  show ?thesis
    using fifty_published [of "[]"] fifty_published [of "[Status False]"]
    by (simp only: a b c append_Nil2 simp_thms)
qed

subsection \<open>When a call of the parser returns\<close>

lemma exec_publish_room_held:
  "ws_clients_mutex \<notin> set held \<Longrightarrow>
   \<forall>c \<in> set cs. active c \<longrightarrow> \<not> queue_full (message_queue c) \<Longrightarrow>
     exec hook (ws_broadcast_message msg @ as) (held, cs) =
       exec hook as (held, send_to_clients msg cs)"
  by (simp add: ws_broadcast_message_def xSemaphoreTake_def broadcast_loop_room)

lemma exec_publishes_room_held:
  "ws_clients_mutex \<notin> set held \<Longrightarrow>
   \<forall>c \<in> set cs. active c \<longrightarrow>
       length (items (message_queue c)) + length msgs \<le> uxLength (message_queue c) \<Longrightarrow>
     exec hook (concat (map ws_broadcast_message msgs) @ as) (held, cs) =
       exec hook as (held, deliver (concat (map ws_broadcast_message msgs)) cs)"
proof (induction msgs arbitrary: cs)
  case Nil
  then show ?case by simp
next
  case (Cons m msgs)
  let ?rest = "concat (map ws_broadcast_message msgs)"
  from Cons.prems have room: "\<forall>c \<in> set cs. active c \<longrightarrow> \<not> queue_full (message_queue c)"
    by (auto simp add: queue_full_def)
  from Cons.prems have later: "\<forall>c \<in> set (send_to_clients m cs). active c \<longrightarrow>
      length (items (message_queue c)) + length msgs \<le> uxLength (message_queue c)"
    using send_to_clients_room [of cs "length msgs" m] by simp
  have "exec hook (concat (map ws_broadcast_message (m # msgs)) @ as) (held, cs) =
      exec hook (ws_broadcast_message m @ (?rest @ as)) (held, cs)"
    by simp
  also have "\<dots> = exec hook (?rest @ as) (held, send_to_clients m cs)"
    by (rule exec_publish_room_held [OF Cons.prems(1) room])
  also have "\<dots> = exec hook as (held, deliver ?rest (send_to_clients m cs))"
    by (rule Cons.IH [OF Cons.prems(1) later])
  also have "deliver ?rest (send_to_clients m cs) =
      deliver (concat (map ws_broadcast_message (m # msgs))) cs"
    using deliver_publish [of m ?rest cs] by simp
  finally show ?case .
qed

lemma deliver_append: "deliver (as @ bs) cs = deliver bs (deliver as cs)"
  by (induction as cs rule: deliver.induct) simp_all

lemma parse_patterns_count: "length (snd (parse_patterns strtof line s)) \<le> 7"
proof -
  let ?s1 = "fst (parse_temperature strtof line s)"
  let ?s2 = "fst (parse_progress strtof line ?s1)"
  let ?s3 = "fst (parse_time_left strtof line ?s2)"
  let ?s4 = "fst (parse_change strtof line ?s3)"
  let ?s5 = "fst (parse_position strtof line ?s4)"
  have "length (snd (parse_temperature strtof line s)) \<le> 2"
    by (simp add: parse_temperature_def Let_def split_beta split: option.splits)
  moreover have "length (snd (parse_progress strtof line ?s1)) \<le> 1"
    by (simp add: parse_progress_def Let_def split: option.splits)
  moreover have "length (snd (parse_time_left strtof line ?s2)) \<le> 1"
    by (simp add: parse_time_left_def Let_def split: option.splits)
  moreover have "length (snd (parse_change strtof line ?s3)) \<le> 1"
    by (simp add: parse_change_def Let_def split: option.splits)
  moreover have "length (snd (parse_position strtof line ?s4)) \<le> 1"
    by (simp add: parse_position_def Let_def split: option.splits)
  moreover have "length (snd (parse_done line ?s5)) \<le> 1"
    by (simp add: parse_done_def Let_def)
  ultimately show ?thesis
    by (simp add: parse_patterns_def split_beta)
qed

text \<open>
  A call of the parser returns when every active client has room for the messages of
  the line, at most eight, and always with the default log output.
\<close>

lemma parse_returns_with_room:
  assumes "\<forall>c \<in> set cs. active c \<longrightarrow>
      length (items (message_queue c)) + 8 \<le> uxLength (message_queue c)"
  shows "exec hook (snd (parse_and_broadcast_line strtof line s)) ([], cs) =
           Returns ([], deliver (snd (parse_and_broadcast_line strtof line s)) cs)"
proof -
  let ?msgs = "snd (parse_patterns strtof line s)"
  let ?all = "build_log_message line # ?msgs"
  have acts: "snd (parse_and_broadcast_line strtof line s) =
      ws_broadcast_message (build_log_message line)
        @ (Take printer_state_mutex # concat (map ws_broadcast_message ?msgs)
             @ [Give printer_state_mutex])"
    by (simp add: parse_and_broadcast_line_def split_beta)
  from assms have room: "\<forall>c \<in> set cs. active c \<longrightarrow> \<not> queue_full (message_queue c)"
    by (auto simp add: queue_full_def)
  from assms parse_patterns_count [of strtof line s]
  have "\<forall>c \<in> set cs. active c \<longrightarrow>
      length (items (message_queue c)) + Suc (length ?msgs) \<le> uxLength (message_queue c)"
    by fastforce
  then have later: "\<forall>c \<in> set (send_to_clients (build_log_message line) cs). active c \<longrightarrow>
      length (items (message_queue c)) + length ?msgs \<le> uxLength (message_queue c)"
    by (rule send_to_clients_room)
  have "exec hook (snd (parse_and_broadcast_line strtof line s)) ([], cs) =
      exec hook (Take printer_state_mutex # concat (map ws_broadcast_message ?msgs)
             @ [Give printer_state_mutex]) ([], send_to_clients (build_log_message line) cs)"
    unfolding acts by (rule exec_publish_room_held [OF _ room]) simp
  also have "\<dots> = exec hook (concat (map ws_broadcast_message ?msgs)
             @ [Give printer_state_mutex])
        ([printer_state_mutex], send_to_clients (build_log_message line) cs)"
    by (simp add: xSemaphoreTake_def)
  also have "\<dots> = exec hook [Give printer_state_mutex] ([printer_state_mutex],
      deliver (concat (map ws_broadcast_message ?msgs))
        (send_to_clients (build_log_message line) cs))"
    by (rule exec_publishes_room_held [OF _ later]) simp
  also have "\<dots> = Returns ([], deliver (snd (parse_and_broadcast_line strtof line s)) cs)"
    unfolding acts by (simp add: ws_broadcast_message_def deliver_append)
  finally show ?thesis .
qed

lemma parse_returns_default:
  "exec False (snd (parse_and_broadcast_line strtof line s)) ([], cs) =
     Returns ([], deliver (snd (parse_and_broadcast_line strtof line s)) cs)"
  by (rule exec_default [OF lock_order_parse])

end
